theory Spec2Isabelle
  imports Main "HOL-Library.Sublist" "HOL-Library.Multiset"
begin

section \<open>Go strings and the library routines the program calls\<close>

text \<open>
  A Go string is a sequence of bytes: \<^typ>\<open>string\<close> (a list of 8-bit characters).
  Go's \<open>int\<close> is modelled by \<^typ>\<open>int\<close>: the program only compares ranks and
  adds one to indices that are bounded by a slice length, so no value wraps.
\<close>

text \<open>
  \<open>strings.Index(s, sep)\<close>: the byte offset of the first occurrence of \<open>sep\<close> in
  \<open>s\<close>, or \<open>-1\<close>.
\<close>

fun Index :: "string \<Rightarrow> string \<Rightarrow> int" where
  "Index [] sep = (if sep = [] then 0 else -1)"
| "Index (c # cs) sep =
     (if prefix sep (c # cs) then 0
      else (let k = Index cs sep in if k < 0 then -1 else k + 1))"

text \<open>
  White space as \<open>unicode.IsSpace\<close> defines it, in its UTF-8 encoding: the six ASCII
  characters tab, line feed, vertical tab, form feed, carriage return and space, then
  U+0085, U+00A0, U+1680, U+2000 to U+200A, U+2028, U+2029, U+202F, U+205F and U+3000.
  Each encoding starts with a byte that is no continuation byte, so a white-space rune
  stands at a byte offset exactly when one of these encodings starts there.
\<close>

definition spaceEncodings :: "string list" where
  "spaceEncodings =
     [[CHR 0x09], [CHR 0x0A], [CHR 0x0B], [CHR 0x0C], [CHR 0x0D], [CHR 0x20],
      [CHR 0xC2, CHR 0x85], [CHR 0xC2, CHR 0xA0],
      [CHR 0xE1, CHR 0x9A, CHR 0x80],
      [CHR 0xE2, CHR 0x80, CHR 0x80], [CHR 0xE2, CHR 0x80, CHR 0x81],
      [CHR 0xE2, CHR 0x80, CHR 0x82], [CHR 0xE2, CHR 0x80, CHR 0x83],
      [CHR 0xE2, CHR 0x80, CHR 0x84], [CHR 0xE2, CHR 0x80, CHR 0x85],
      [CHR 0xE2, CHR 0x80, CHR 0x86], [CHR 0xE2, CHR 0x80, CHR 0x87],
      [CHR 0xE2, CHR 0x80, CHR 0x88], [CHR 0xE2, CHR 0x80, CHR 0x89],
      [CHR 0xE2, CHR 0x80, CHR 0x8A],
      [CHR 0xE2, CHR 0x80, CHR 0xA8], [CHR 0xE2, CHR 0x80, CHR 0xA9],
      [CHR 0xE2, CHR 0x80, CHR 0xAF],
      [CHR 0xE2, CHR 0x81, CHR 0x9F],
      [CHR 0xE3, CHR 0x80, CHR 0x80]]"

text \<open>The width in bytes of the white-space rune that starts (ends) a string; 0 if none does.\<close>

definition spaceWidth :: "string \<Rightarrow> nat" where
  "spaceWidth s = (case find (\<lambda>e. prefix e s) spaceEncodings of None \<Rightarrow> 0 | Some e \<Rightarrow> length e)"

definition spaceWidthEnd :: "string \<Rightarrow> nat" where
  "spaceWidthEnd s = (case find (\<lambda>e. suffix e s) spaceEncodings of None \<Rightarrow> 0 | Some e \<Rightarrow> length e)"

lemma spaceWidth_le: "spaceWidth s \<le> length s"
  by (auto simp: spaceWidth_def prefix_length_le split: option.splits dest!: find_Some_iff[THEN iffD1])

lemma spaceWidthEnd_le: "spaceWidthEnd s \<le> length s"
  by (auto simp: spaceWidthEnd_def suffix_length_le split: option.splits dest!: find_Some_iff[THEN iffD1])

text \<open>\<open>strings.TrimSpace\<close>: all leading and trailing white space removed.\<close>

function trimLeft :: "string \<Rightarrow> string" where
  "trimLeft s = (if spaceWidth s = 0 then s else trimLeft (drop (spaceWidth s) s))"
  by pat_completeness auto
termination
proof (relation "measure length")
  fix s :: string
  assume "spaceWidth s \<noteq> 0"
  moreover have "spaceWidth s \<le> length s" by (rule spaceWidth_le)
  ultimately show "(drop (spaceWidth s) s, s) \<in> measure length" by simp
qed simp

declare trimLeft.simps [simp del]

function trimRight :: "string \<Rightarrow> string" where
  "trimRight s = (if spaceWidthEnd s = 0 then s else trimRight (take (length s - spaceWidthEnd s) s))"
  by pat_completeness auto
termination
proof (relation "measure length")
  fix s :: string
  assume "spaceWidthEnd s \<noteq> 0"
  moreover have "spaceWidthEnd s \<le> length s" by (rule spaceWidthEnd_le)
  ultimately show "(take (length s - spaceWidthEnd s) s, s) \<in> measure length" by simp
qed simp

declare trimRight.simps [simp del]

definition TrimSpace :: "string \<Rightarrow> string" where
  "TrimSpace s = trimRight (trimLeft s)"

text \<open>
  \<open>strings.TrimRight(s, "\n")\<close>, whose cutset at its only call site is the line feed:
  all trailing line feeds removed.
\<close>

definition TrimRightNewlines :: "string \<Rightarrow> string" where
  "TrimRightNewlines s = rev (dropWhile (\<lambda>c. c = CHR 0x0A) (rev s))"

text \<open>
  \<open>strings.ReplaceAll(s, old, new)\<close> for a one-byte \<open>old\<close> (the only call site passes
  the line feed): every such byte replaced by \<open>new\<close>.
\<close>

fun ReplaceAll :: "string \<Rightarrow> char \<Rightarrow> string \<Rightarrow> string" where
  "ReplaceAll [] old new = []"
| "ReplaceAll (c # cs) old new = (if c = old then new else [c]) @ ReplaceAll cs old new"

text \<open>
  \<open>strings.Fields\<close>: the maximal runs of bytes that hold no white-space rune, in order.
  The first argument is the field being collected.
\<close>

function fieldsFrom :: "string \<Rightarrow> string \<Rightarrow> string list" where
  "fieldsFrom cur s =
     (if s = [] then (if cur = [] then [] else [cur])
      else if spaceWidth s = 0 then fieldsFrom (cur @ [hd s]) (tl s)
      else (if cur = [] then [] else [cur]) @ fieldsFrom [] (drop (spaceWidth s) s))"
  by pat_completeness auto
termination
proof (relation "measure (\<lambda>(cur, s). length s)")
  fix cur s :: string
  assume "s \<noteq> []" "spaceWidth s \<noteq> 0"
  then show "(([], drop (spaceWidth s) s), (cur, s)) \<in> measure (\<lambda>(cur, s). length s)" by simp
qed auto

declare fieldsFrom.simps [simp del]

definition Fields :: "string \<Rightarrow> string list" where
  "Fields s = fieldsFrom [] s"

text \<open>\<open>strings.Join(elems, sep)\<close>.\<close>

fun Join :: "string list \<Rightarrow> string \<Rightarrow> string" where
  "Join [] sep = []"
| "Join [w] sep = w"
| "Join (w # v # ws) sep = w @ sep @ Join (v # ws) sep"

text \<open>\<open>strings.Count(s, "\n")\<close>: the number of line feeds.\<close>

definition CountNewlines :: "string \<Rightarrow> int" where
  "CountNewlines s = int (length (filter (\<lambda>c. c = CHR 0x0A) s))"

text \<open>
  \<open>sort.SliceStable(x, less)\<close>. The comparator is a closure over the slice being sorted,
  so it receives the current contents together with the two indices. Go sorts runs of
  up to 20 elements with \<open>insertionSort\<close>, which is the routine below: element \<open>i\<close> moves
  down while \<open>less(j, j - 1)\<close> holds. Longer slices are sorted in blocks of 20 that are
  then merged; the merge, like the insertion, calls \<open>less\<close> with the index of the later
  element first.
\<close>

definition swap :: "'a list \<Rightarrow> nat \<Rightarrow> nat \<Rightarrow> 'a list" where
  "swap xs i j = xs[i := xs ! j, j := xs ! i]"

fun insertDown :: "('a list \<Rightarrow> nat \<Rightarrow> nat \<Rightarrow> bool) \<Rightarrow> 'a list \<Rightarrow> nat \<Rightarrow> 'a list" where
  "insertDown lessFn xs 0 = xs"
| "insertDown lessFn xs (Suc j) =
     (if lessFn xs (Suc j) j then insertDown lessFn (swap xs (Suc j) j) j else xs)"

function insertionSort :: "('a list \<Rightarrow> nat \<Rightarrow> nat \<Rightarrow> bool) \<Rightarrow> 'a list \<Rightarrow> nat \<Rightarrow> nat \<Rightarrow> 'a list" where
  "insertionSort lessFn xs i b =
     (if i < b then insertionSort lessFn (insertDown lessFn xs i) (i + 1) b else xs)"
  by pat_completeness auto
termination
  by (relation "measure (\<lambda>(lessFn, xs, i, b). b - i)") auto

declare insertionSort.simps [simp del]

definition SliceStable :: "('a list \<Rightarrow> nat \<Rightarrow> nat \<Rightarrow> bool) \<Rightarrow> 'a list \<Rightarrow> 'a list" where
  "SliceStable lessFn xs = insertionSort lessFn xs 1 (length xs)"

section \<open>prompt.go\<close>

record optionEntry =
  Value :: string
  Description :: string
  RecommendationOrder :: int

record optionResponse =
  Options :: "optionEntry list"

definition buildPrompt :: "string \<Rightarrow> string" where
  \<open>buildPrompt userPrompt =
     ''Give me one or more concise options with short descriptions for the following: ''
     @ userPrompt @ [CHR 0x0A]
     @ ''Respond ONLY with JSON shaped like {"options":[{"value":"...","description":"...","recommendation_order":1}]}. No extra text.''\<close>

text \<open>The comparator closure of \<open>parseOptions\<close>; \<open>opts\<close> is the slice being sorted.\<close>

definition lessOpts :: "optionEntry list \<Rightarrow> nat \<Rightarrow> nat \<Rightarrow> bool" where
  "lessOpts opts i j =
     (let oi = RecommendationOrder (opts ! i);
          oj = RecommendationOrder (opts ! j)
      in if oi > 0 \<and> oj > 0 \<and> oi \<noteq> oj then oi < oj
         else if oi > 0 \<and> oj \<le> 0 then True
         else if oi \<le> 0 \<and> oj > 0 then False
         else i < j)"

definition marker :: string where
  \<open>marker = ''{"options"''\<close>

definition parseError :: string where
  "parseError = ''failed to parse options JSON''"

text \<open>
  \<open>json.NewDecoder(strings.NewReader(segment)).Decode(&resp)\<close> belongs to Go's standard
  library. It is the parameter \<open>dec\<close>: from the segment to the error (\<open>None\<close> for
  \<open>nil\<close>) and the decoded response. Every statement below holds for every decoder.
\<close>

type_synonym decoder = "string \<Rightarrow> string option \<times> optionResponse"

text \<open>The loop of \<open>parseOptions\<close>, from the current \<open>search\<close> and \<open>lastOpts\<close>.\<close>

lemma Index_bound: "0 \<le> Index s sep \<Longrightarrow> nat (Index s sep) + length sep \<le> length s"
proof (induction s)
  case Nil
  then show ?case by (simp split: if_splits)
next
  case (Cons c cs)
  show ?case
  proof (cases "prefix sep (c # cs)")
    case True
    then show ?thesis using prefix_length_le[of sep "c # cs"] by simp
  next
    case False
    with Cons.prems have "0 \<le> Index cs sep"
      by (simp add: Let_def split: if_splits)
    with Cons.IH False show ?thesis
      by (simp add: Let_def nat_add_distrib)
  qed
qed

function parseLoop :: "decoder \<Rightarrow> string \<Rightarrow> optionEntry list \<Rightarrow> optionEntry list" where
  \<open>parseLoop dec search lastOpts =
     (if Index search marker < 0 then lastOpts
      else parseLoop dec
             (drop (nat (Index search marker) + length ''{"options'') search)
             (case dec (drop (nat (Index search marker)) search) of
                (err, resp) \<Rightarrow>
                  if err = None \<and> length (Options resp) > 0
                  then SliceStable lessOpts (Options resp)
                  else lastOpts))\<close>
  by pat_completeness auto
termination
proof (relation "measure (\<lambda>(dec, search, lastOpts). length search)")
  fix dec :: decoder and search :: string and lastOpts :: "optionEntry list"
  assume "\<not> Index search marker < 0"
  then have "nat (Index search marker) + length marker \<le> length search"
    by (simp add: Index_bound)
  then show \<open>((dec, drop (nat (Index search marker) + length ''{"options'') search,
                case dec (drop (nat (Index search marker)) search) of
                  (err, resp) \<Rightarrow>
                    if err = None \<and> length (Options resp) > 0
                    then SliceStable lessOpts (Options resp)
                    else lastOpts),
               (dec, search, lastOpts))
              \<in> measure (\<lambda>(dec, search, lastOpts). length search)\<close>
    by (simp add: marker_def)
qed simp

declare parseLoop.simps [simp del]

definition parseOptions :: "decoder \<Rightarrow> string \<Rightarrow> optionEntry list \<times> string option" where
  "parseOptions dec raw =
     (let lastOpts = parseLoop dec raw []
      in if length lastOpts > 0 then (lastOpts, None) else ([], Some parseError))"

definition cleanText :: "string \<Rightarrow> string" where
  "cleanText s = Join (Fields (ReplaceAll (TrimSpace s) (CHR 0x0A) '' '')) '' ''"


section \<open>ui.go\<close>

text \<open>The bytes of the non-ASCII runes in the status texts (U+2022, U+274C, U+2705).\<close>

definition bullet :: string where
  "bullet = [CHR 0xE2, CHR 0x80, CHR 0xA2]"

definition crossMark :: string where
  "crossMark = [CHR 0xE2, CHR 0x9D, CHR 0x8C]"

definition checkMark :: string where
  "checkMark = [CHR 0xE2, CHR 0x9C, CHR 0x85]"

definition helpInput :: string where
  "helpInput = ''enter: send '' @ bullet @ '' ctrl+r: send & run '' @ bullet
     @ '' alt+enter/ctrl+j: newline''"

definition helpViewing :: string where
  "helpViewing = ''up/down/j/k: select '' @ bullet @ '' enter: copy & exit '' @ bullet
     @ '' ctrl+r: run & exit '' @ bullet @ '' alt+enter: new prompt '' @ bullet
     @ '' esc/q: quit''"

datatype viewMode = modeInput | modeRunning | modeViewing

text \<open>
  \<open>msgOutput\<close> is the field \<open>output\<close>; \<open>err\<close> is \<open>None\<close> for \<open>nil\<close>, otherwise the text
  \<open>err.Error()\<close> returns.
\<close>

record responseMsg =
  msgOutput :: string
  err :: "string option"
  cli :: string

text \<open>
  \<open>tea.KeyMsg\<close>: the key types the handlers test (\<open>KeyOther\<close> stands for every other
  type), the \<open>Alt\<close> flag, and \<open>keyString\<close>, the text \<open>msg.String()\<close> returns. The library
  computes that text from the key; here it is a field of its own, so the model covers
  every key message the library can deliver.
\<close>

datatype keyType = KeyCtrlC | KeyCtrlJ | KeyCtrlR | KeyEnter | KeyOther

record keyMsg =
  Type :: keyType
  Alt :: bool
  keyString :: string

text \<open>
  \<open>tea.Msg\<close>: the message types \<open>Update\<close> switches on; \<open>ExecResultMsg err exit\<close> is
  \<open>execResultMsg\<close>; \<open>OtherMsg\<close> is a message of any other type.
\<close>

datatype msg =
    WindowSizeMsg int int
  | TickMsg
  | ResponseMsg responseMsg
  | ExecResultMsg "string option" bool
  | KeyMsg keyMsg
  | OtherMsg nat

text \<open>
  \<open>tea.Cmd\<close>: \<open>NoCmd\<close> is \<open>nil\<close>; \<open>RunPrompt name prompt\<close> is the closure of
  \<open>submitPrompt\<close>, which runs the prompt on the runner called \<open>name\<close> under a five-minute
  deadline and delivers a \<open>responseMsg\<close>; \<open>ExecWithFeedback value exitOnSuccess\<close> runs
  \<open>sh -c value\<close> on the terminal; \<open>InputCmd\<close> is a command the text area returned.
\<close>

datatype cmd =
    NoCmd
  | Quit
  | TickCmd
  | RunPrompt string string
  | ExecWithFeedback string bool
  | Batch "cmd list"
  | InputCmd nat

text \<open>A runner; its \<open>runPrompt\<close> closure is represented by \<open>RunPrompt name\<close>.\<close>

record cliOption =
  name :: string

text \<open>
  The model; \<open>'ta\<close> is the text area widget of the bubbles library, \<open>lastParseError\<close> is
  the error text when set.
\<close>

record 'ta model =
  cliOptions :: "cliOption list"
  cliIndex :: int
  input :: 'ta
  mode :: viewMode
  running :: bool
  width :: int
  height :: int
  ready :: bool
  lastPrompt :: string
  status :: string
  rawOutput :: string
  options :: "optionEntry list"
  selected :: int
  lastParseError :: "string option"
  autoExecute :: bool
  spinnerFrame :: int

text \<open>
  What lies outside the repository: the JSON decoder, \<open>clipboard.WriteAll\<close> (its result is
  the error text, \<open>None\<close> for success) and the methods of the text area. Every statement
  below holds for every environment.
\<close>

record 'ta env =
  decodeJSON :: decoder
  clipboardWriteAll :: "string \<Rightarrow> string option"
  inputValue :: "'ta \<Rightarrow> string"
  inputSetValue :: "'ta \<Rightarrow> string \<Rightarrow> 'ta"
  inputFocus :: "'ta \<Rightarrow> 'ta"
  inputSetHeight :: "'ta \<Rightarrow> int \<Rightarrow> 'ta"
  inputSetWidth :: "'ta \<Rightarrow> int \<Rightarrow> 'ta"
  inputUpdate :: "'ta \<Rightarrow> msg \<Rightarrow> 'ta \<times> nat"

text \<open>
  A run-time panic of Go: an index out of range. \<open>sliceAt xs i\<close> is the indexing
  expression \<open>xs[i]\<close>.
\<close>

datatype panic = IndexOutOfRange

definition sliceAt :: "'a list \<Rightarrow> int \<Rightarrow> panic + 'a" where
  "sliceAt xs i =
     (if 0 \<le> i \<and> i < int (length xs) then Inr (xs ! nat i) else Inl IndexOutOfRange)"

text \<open>
  What a handler returns: the model, the command, and the values it passed to
  \<open>clipboard.WriteAll\<close> on the way.
\<close>

type_synonym 'ta outcome = "'ta model \<times> cmd \<times> string list"

text \<open>Go's \<open>%\<close> on integers: the remainder of the division that truncates towards zero.\<close>

definition goRem :: "int \<Rightarrow> int \<Rightarrow> int" where
  "goRem a b = sgn a * (\<bar>a\<bar> mod \<bar>b\<bar>)"

definition currentCLI :: "'ta model \<Rightarrow> panic + cliOption" where
  "currentCLI m = sliceAt (cliOptions m) (cliIndex m)"

definition nextCLI :: "'ta model \<Rightarrow> panic + 'ta model" where
  "nextCLI m =
     (if length (cliOptions m) = 0 then Inr m
      else
        let m1 = m\<lparr>cliIndex := goRem (cliIndex m + 1) (int (length (cliOptions m)))\<rparr>
        in case currentCLI m1 of
             Inl p \<Rightarrow> Inl p
           | Inr c \<Rightarrow> Inr (m1\<lparr>status := ''using '' @ name c @ '' '' @ bullet @ '' '' @ helpInput\<rparr>))"

definition prevCLI :: "'ta model \<Rightarrow> panic + 'ta model" where
  "prevCLI m =
     (if length (cliOptions m) = 0 then Inr m
      else
        let m1 = m\<lparr>cliIndex :=
                     goRem (cliIndex m - 1 + int (length (cliOptions m))) (int (length (cliOptions m)))\<rparr>
        in case currentCLI m1 of
             Inl p \<Rightarrow> Inl p
           | Inr c \<Rightarrow> Inr (m1\<lparr>status := ''using '' @ name c @ '' '' @ bullet @ '' '' @ helpInput\<rparr>))"

definition resizeComponents :: "'ta env \<Rightarrow> 'ta model \<Rightarrow> 'ta model" where
  "resizeComponents e m =
     (if \<not> ready m then m
      else if width m > 10 then m\<lparr>input := inputSetWidth e (input m) (width m - 10)\<rparr>
      else m)"

definition adjustTextareaHeight :: "'ta env \<Rightarrow> 'ta model \<Rightarrow> 'ta model" where
  "adjustTextareaHeight e m =
     (let lines0 = CountNewlines (inputValue e (input m)) + 1;
          lines1 = (if lines0 < 1 then 1 else lines0);
          lines2 = (if lines1 > 1 then lines1 + 1 else lines1);
          lines3 = (if lines2 > 20 then 20 else lines2)
      in m\<lparr>input := inputSetHeight e (input m) lines3\<rparr>)"

definition isNewline :: "keyMsg \<Rightarrow> bool" where
  "isNewline k =
     (if Type k = KeyCtrlJ then True
      else if Type k = KeyEnter \<and> Alt k then True
      else keyString k = ''alt+enter'')"

definition isCtrlR :: "keyMsg \<Rightarrow> bool" where
  "isCtrlR k = (Type k = KeyCtrlR \<or> keyString k = ''ctrl+r'')"

definition isCtrlEnter :: "keyMsg \<Rightarrow> bool" where
  "isCtrlEnter k = (keyString k = ''ctrl+enter'')"

definition moveSelection :: "'ta model \<Rightarrow> int \<Rightarrow> 'ta model" where
  "moveSelection m delta =
     (if length (options m) = 0 then m
      else m\<lparr>selected :=
                goRem (selected m + delta + int (length (options m))) (int (length (options m)))\<rparr>)"

definition selectedValue :: "'ta model \<Rightarrow> panic + string" where
  "selectedValue m =
     (if length (options m) = 0 then Inr []
      else if selected m < 0 \<or> selected m \<ge> int (length (options m)) then Inr []
      else case sliceAt (options m) (selected m) of
             Inl p \<Rightarrow> Inl p
           | Inr opt \<Rightarrow> Inr (Value opt))"

text \<open>
  The rendering. \<open>Render\<close> of a lipgloss style is the pair of the style and the text.
  \<open>renderOptionsTable\<close> returns the rows, which the program joins with line feeds;
  \<open>viewResults\<close> is what \<open>View\<close> writes between the tab row and the status line in viewing
  mode, once the window size is known and nothing is running.
\<close>

datatype style =
    noOptsStyle | selectedStyle | normalStyle | descStyle
  | promptStyle | errorStyle | rawStyle | warnStyle

definition triangle :: string where
  "triangle = [CHR 0xE2, CHR 0x96, CHR 0xB6]"

definition promptMark :: string where
  "promptMark = [CHR 0xE2, CHR 0x9D, CHR 0xAF]"

definition warningSign :: string where
  "warningSign = [CHR 0xE2, CHR 0x9A, CHR 0xA0]"

fun tableRows :: "int \<Rightarrow> int \<Rightarrow> optionEntry list \<Rightarrow> (style \<times> string) list" where
  "tableRows i sel [] = []"
| "tableRows i sel (opt # opts) =
     (let val = cleanText (Value opt);
          desc = cleanText (Description opt)
      in (if i = sel then
            (selectedStyle, triangle @ '' '' @ val)
              # (if desc \<noteq> [] then [(descStyle, ''  '' @ desc)] else [])
          else
            (normalStyle, ''  '' @ val)
              # (if desc \<noteq> [] then [(descStyle, ''  '' @ desc)] else []))
         @ tableRows (i + 1) sel opts)"

definition renderOptionsTable :: "'ta model \<Rightarrow> (style \<times> string) list" where
  "renderOptionsTable m =
     (if length (options m) = 0 then [(noOptsStyle, ''(no options)'')]
      else tableRows 0 (selected m) (options m))"

definition viewResults :: "'ta model \<Rightarrow> (style \<times> string) list" where
  "viewResults m =
     (if TrimSpace (lastPrompt m) \<noteq> [] then [(promptStyle, promptMark @ '' '' @ lastPrompt m)]
      else [])
     @ (case lastParseError m of
          Some t \<Rightarrow>
            (errorStyle, crossMark @ '' Parse error: '' @ t)
              # (if rawOutput m \<noteq> [] then [(rawStyle, rawOutput m)] else [])
        | None \<Rightarrow>
            if length (options m) = 0 then [(warnStyle, warningSign @ '' No options returned'')]
            else renderOptionsTable m)"

definition handleResponse :: "'ta env \<Rightarrow> 'ta model \<Rightarrow> responseMsg \<Rightarrow> panic + 'ta model \<times> cmd" where
  "handleResponse e m0 r =
     (let m1 = m0\<lparr>running := False, mode := modeViewing\<rparr>;
          respText0 = TrimSpace (msgOutput r);
          respText = (if err r \<noteq> None \<and> respText0 = [] then the (err r) else respText0);
          m2 = m1\<lparr>rawOutput := respText, lastParseError := None\<rparr>
      in if err r \<noteq> None then
           Inr (m2\<lparr>status := ''error from '' @ cli r @ '' '' @ bullet @ '' '' @ helpViewing,
                   options := [], selected := 0\<rparr>, NoCmd)
         else
           case parseOptions (decodeJSON e) respText of
             (opts, Some parseErr) \<Rightarrow>
               Inr (m2\<lparr>lastParseError := Some parseErr,
                       status := ''parse error: '' @ parseErr @ '' '' @ bullet @ '' '' @ helpViewing,
                       options := [], selected := 0\<rparr>, NoCmd)
           | (opts, None) \<Rightarrow>
               let m3 = m2\<lparr>options := opts, selected := 0, status := helpViewing\<rparr>
               in if autoExecute m3 \<and> length opts > 0 then
                    (case sliceAt opts 0 of
                       Inl p \<Rightarrow> Inl p
                     | Inr opt \<Rightarrow>
                         Inr (m3\<lparr>status := ''running: '' @ cleanText (Value opt),
                                 autoExecute := False\<rparr>,
                              ExecWithFeedback (Value opt) True))
                  else Inr (m3, NoCmd))"

definition submitPrompt :: "'ta env \<Rightarrow> 'ta model \<Rightarrow> panic + 'ta outcome" where
  "submitPrompt e m =
     (let userPrompt = TrimRightNewlines (inputValue e (input m))
      in if TrimSpace userPrompt = [] then
           Inr (m\<lparr>status := ''prompt is empty '' @ bullet @ '' '' @ helpInput\<rparr>, NoCmd, [])
         else
           let m1 = m\<lparr>lastPrompt := userPrompt, running := True, mode := modeRunning,
                      spinnerFrame := 0, status := [], options := [], lastParseError := None,
                      rawOutput := [], selected := 0\<rparr>
           in case currentCLI m1 of
                Inl p \<Rightarrow> Inl p
              | Inr selectedCLI \<Rightarrow>
                  Inr (resizeComponents e m1,
                       Batch [RunPrompt (name selectedCLI) (buildPrompt userPrompt), TickCmd], []))"

definition updateInput :: "'ta env \<Rightarrow> 'ta model \<Rightarrow> msg \<Rightarrow> 'ta outcome" where
  "updateInput e m ms =
     (let m1 = (case ms of
                  KeyMsg k \<Rightarrow>
                    if Type k = KeyEnter then
                      (let futureLines0 = CountNewlines (inputValue e (input m)) + 2;
                           futureLines1 = (if futureLines0 > 1 then futureLines0 + 1 else futureLines0);
                           futureLines2 = (if futureLines1 > 20 then 20 else futureLines1)
                       in m\<lparr>input := inputSetHeight e (input m) futureLines2\<rparr>)
                    else m
                | _ \<Rightarrow> m);
          (inp, c) = inputUpdate e (input m1) ms
      in (adjustTextareaHeight e (m1\<lparr>input := inp\<rparr>), InputCmd c, []))"

definition handleInputKeys :: "'ta env \<Rightarrow> 'ta model \<Rightarrow> keyMsg \<Rightarrow> panic + 'ta outcome" where
  "handleInputKeys e m k =
     (if Type k = KeyCtrlC \<or> keyString k = ''esc'' then Inr (m, Quit, [])
      else if keyString k = ''ctrl+n'' then
        (case nextCLI m of Inl p \<Rightarrow> Inl p | Inr m1 \<Rightarrow> Inr (m1, NoCmd, []))
      else if keyString k = ''ctrl+p'' then
        (case prevCLI m of Inl p \<Rightarrow> Inl p | Inr m1 \<Rightarrow> Inr (m1, NoCmd, []))
      else if isNewline k then
        (let currentLines = CountNewlines (inputValue e (input m)) + 1;
             newLines = currentLines + 1;
             m1 = (if newLines \<le> 10 then m\<lparr>input := inputSetHeight e (input m) newLines\<rparr> else m);
             (inp, c) = inputUpdate e (input m1)
                          (KeyMsg \<lparr>Type = KeyEnter, Alt = False, keyString = ''enter''\<rparr>)
         in Inr (m1\<lparr>input := inp\<rparr>, InputCmd c, []))
      else if isCtrlR k then submitPrompt e (m\<lparr>autoExecute := True\<rparr>)
      else if Type k = KeyEnter \<or> isCtrlEnter k then submitPrompt e (m\<lparr>autoExecute := False\<rparr>)
      else Inr (updateInput e m (KeyMsg k)))"

definition handleViewingKeys :: "'ta env \<Rightarrow> 'ta model \<Rightarrow> keyMsg \<Rightarrow> panic + 'ta outcome" where
  "handleViewingKeys e m k =
     (if Type k = KeyCtrlC \<or> keyString k = ''esc'' \<or> keyString k = ''q'' then Inr (m, Quit, [])
      else if isNewline k then
        Inr (m\<lparr>mode := modeInput, running := False,
                input := inputFocus e (inputSetValue e (input m) []),
                status := helpInput, options := [], lastParseError := None, rawOutput := [],
                autoExecute := False\<rparr>, NoCmd, [])
      else if isCtrlR k then
        (case selectedValue m of
           Inl p \<Rightarrow> Inl p
         | Inr value0 \<Rightarrow>
             if value0 = [] \<and> rawOutput m = [] then
               Inr (m\<lparr>status := ''nothing to run '' @ bullet @ '' '' @ helpViewing\<rparr>, NoCmd, [])
             else
               let v = (if value0 = [] then rawOutput m else value0)
               in Inr (m\<lparr>status := ''running: '' @ cleanText v\<rparr>, ExecWithFeedback v True, []))
      else if Type k = KeyEnter then
        (case selectedValue m of
           Inl p \<Rightarrow> Inl p
         | Inr value0 \<Rightarrow>
             if value0 = [] \<and> rawOutput m = [] then
               Inr (m\<lparr>status := ''nothing to copy '' @ bullet @ '' '' @ helpViewing\<rparr>, NoCmd, [])
             else
               let v = (if value0 = [] then rawOutput m else value0)
               in (case clipboardWriteAll e v of
                     Some werr \<Rightarrow>
                       Inr (m\<lparr>status := crossMark @ '' CLIPBOARD FAILED: '' @ werr @ '' '' @ bullet
                                 @ '' Install xclip/xsel on Linux '' @ bullet @ '' '' @ helpViewing\<rparr>,
                            NoCmd, [v])
                   | None \<Rightarrow>
                       Inr (m\<lparr>status := checkMark @ '' Copied to clipboard: '' @ v\<rparr>, Quit, [v])))
      else if keyString k = ''up'' \<or> keyString k = ''k'' then Inr (moveSelection m (-1), NoCmd, [])
      else if keyString k = ''down'' \<or> keyString k = ''j'' then Inr (moveSelection m 1, NoCmd, [])
      else Inr (m, NoCmd, []))"

definition handleRunningKeys :: "'ta model \<Rightarrow> keyMsg \<Rightarrow> 'ta outcome" where
  "handleRunningKeys m k =
     (if Type k = KeyCtrlC \<or> keyString k = ''esc'' then (m, Quit, []) else (m, NoCmd, []))"

definition handleKeyMsg :: "'ta env \<Rightarrow> 'ta model \<Rightarrow> keyMsg \<Rightarrow> panic + 'ta outcome" where
  "handleKeyMsg e m k =
     (case mode m of
        modeInput \<Rightarrow> handleInputKeys e m k
      | modeRunning \<Rightarrow> Inr (handleRunningKeys m k)
      | modeViewing \<Rightarrow> handleViewingKeys e m k)"

definition Update :: "'ta env \<Rightarrow> 'ta model \<Rightarrow> msg \<Rightarrow> panic + 'ta outcome" where
  "Update e m ms =
     (case ms of
        WindowSizeMsg w h \<Rightarrow>
          (let m1 = resizeComponents e (m\<lparr>width := w, height := h, ready := True\<rparr>)
           in Inr (if mode m1 = modeInput then adjustTextareaHeight e m1 else m1, NoCmd, []))
      | TickMsg \<Rightarrow>
          (if running m then Inr (m\<lparr>spinnerFrame := goRem (spinnerFrame m + 1) 10\<rparr>, TickCmd, [])
           else Inr (m, NoCmd, []))
      | ResponseMsg r \<Rightarrow>
          (case handleResponse e m r of Inl p \<Rightarrow> Inl p | Inr (m1, c) \<Rightarrow> Inr (m1, c, []))
      | ExecResultMsg xerr exit \<Rightarrow>
          (case xerr of
             Some t \<Rightarrow>
               Inr (m\<lparr>running := False, mode := modeViewing,
                      status := crossMark @ '' exec failed: '' @ t @ '' '' @ bullet @ '' '' @ helpViewing\<rparr>,
                    NoCmd, [])
           | None \<Rightarrow> if exit then Inr (m, Quit, []) else Inr (m, NoCmd, []))
      | KeyMsg k \<Rightarrow> handleKeyMsg e m k
      | OtherMsg n \<Rightarrow>
          (if mode m = modeInput then
             (case inputUpdate e (input m) ms of
                (inp, c) \<Rightarrow> Inr (adjustTextareaHeight e (m\<lparr>input := inp\<rparr>), InputCmd c, []))
           else Inr (m, NoCmd, [])))"


text \<open>
  \<open>newModel\<close>. \<open>optionsSchemaPath\<close> and \<open>cliAvailable\<close> are not among the sources, and
  \<open>strings.EqualFold\<close> and \<open>textarea.New\<close> are library code: the error of the schema lookup
  (\<open>None\<close> for \<open>nil\<close>), the availability test, the case-insensitive comparison and the
  configured text area are parameters. \<open>Inl\<close> is the message of \<open>log.Fatalf\<close>, which ends the
  process.
\<close>

definition allCLIOptions :: "cliOption list" where
  "allCLIOptions = [\<lparr>name = ''codex''\<rparr>, \<lparr>name = ''claude''\<rparr>, \<lparr>name = ''gemini''\<rparr>,
     \<lparr>name = ''opencode''\<rparr>]"

fun defaultIndex :: "(string \<Rightarrow> string \<Rightarrow> bool) \<Rightarrow> string \<Rightarrow> cliOption list \<Rightarrow> int \<Rightarrow> int" where
  "defaultIndex equalFold defaultCLI [] i = 0"
| "defaultIndex equalFold defaultCLI (opt # opts) i =
     (if equalFold (name opt) defaultCLI then i
      else defaultIndex equalFold defaultCLI opts (i + 1))"

definition newModel ::
  "string option \<Rightarrow> (string \<Rightarrow> bool) \<Rightarrow> (string \<Rightarrow> string \<Rightarrow> bool) \<Rightarrow> 'ta \<Rightarrow> string
     \<Rightarrow> string + 'ta model" where
  "newModel schemaErr cliAvailable equalFold input0 defaultCLI =
     (case schemaErr of
        Some t \<Rightarrow> Inl (''schema not found: '' @ t)
      | None \<Rightarrow>
          let opts = filter (\<lambda>opt. cliAvailable (name opt)) allCLIOptions
          in if length opts = 0 then
               Inl (''schema not found: no AI CLIs found. Please install at least one of: codex, claude, gemini, opencode'')
             else
               Inr \<lparr>cliOptions = opts,
                    cliIndex = defaultIndex equalFold defaultCLI opts 0,
                    input = input0,
                    mode = modeInput,
                    running = False,
                    width = 0,
                    height = 0,
                    ready = False,
                    lastPrompt = [],
                    status = helpInput,
                    rawOutput = [],
                    options = [],
                    selected = 0,
                    lastParseError = None,
                    autoExecute = False,
                    spinnerFrame = 0\<rparr>)"

text \<open>
  The states the program can be in: the initial model, and every model \<open>Update\<close> returns
  from one of them, for any message and any behaviour of the environment.
\<close>

inductive reachable :: "'ta model \<Rightarrow> bool" where
  start: "newModel schemaErr cliAvailable equalFold input0 defaultCLI = Inr m \<Longrightarrow> reachable m"
| step: "reachable m \<Longrightarrow> Update e m ms = Inr (m', c, w) \<Longrightarrow> reachable m'"

text \<open>
  The event loop of the runtime: the messages are handed to \<open>Update\<close> one after the
  other; the result is the last model and the commands returned on the way.
\<close>

fun runMsgs :: "'ta env \<Rightarrow> 'ta model \<Rightarrow> msg list \<Rightarrow> panic + 'ta model \<times> cmd list" where
  "runMsgs e m [] = Inr (m, [])"
| "runMsgs e m (ms # rest) =
     (case Update e m ms of
        Inl p \<Rightarrow> Inl p
      | Inr (m1, c, w) \<Rightarrow>
          (case runMsgs e m1 rest of
             Inl p \<Rightarrow> Inl p
           | Inr (m2, cs) \<Rightarrow> Inr (m2, c # cs)))"

text \<open>A command that runs a shell command, on its own or inside a batch.\<close>

fun execs :: "cmd \<Rightarrow> bool" where
  "execs (ExecWithFeedback v x) = True"
| "execs (Batch cs) = (\<exists>c\<in>set cs. execs c)"
| "execs c = False"


section \<open>Notions the properties are stated with\<close>

text \<open>
  The order of the ranking: \<open>sortsFirst a b\<close> when \<open>a\<close> has to stand before \<open>b\<close> whatever
  their original positions, which is when both are ranked and \<open>a\<close> has the lower rank, or
  only \<open>a\<close> is ranked. Two entries are \<open>tied\<close> when neither sorts first.
\<close>

definition sortsFirst :: "optionEntry \<Rightarrow> optionEntry \<Rightarrow> bool" where
  "sortsFirst a b =
     ((RecommendationOrder a > 0 \<and> RecommendationOrder b > 0
         \<and> RecommendationOrder a < RecommendationOrder b)
      \<or> (RecommendationOrder a > 0 \<and> RecommendationOrder b \<le> 0))"

definition tied :: "optionEntry \<Rightarrow> optionEntry \<Rightarrow> bool" where
  "tied a b = (\<not> sortsFirst a b \<and> \<not> sortsFirst b a)"

text \<open>
  Insertion into a list kept in reverse, and the insertion sort that folds it over the
  input from the left: the functional reading of \<open>insertDown\<close> and \<open>insertionSort\<close>.
\<close>

fun insRev :: "('a \<Rightarrow> 'a \<Rightarrow> bool) \<Rightarrow> 'a \<Rightarrow> 'a list \<Rightarrow> 'a list" where
  "insRev lt x [] = [x]"
| "insRev lt x (y # ys) = (if lt x y then y # insRev lt x ys else x # y # ys)"

fun isortL :: "('a \<Rightarrow> 'a \<Rightarrow> bool) \<Rightarrow> 'a list \<Rightarrow> 'a list \<Rightarrow> 'a list" where
  "isortL lt acc [] = acc"
| "isortL lt acc (x # xs) = isortL lt (rev (insRev lt x (rev acc))) xs"

text \<open>
  The candidates of a text: its suffixes that start with the marker, from left to right.
  A candidate decodes to options when the decoder returns no error and a non-empty
  \<open>Options\<close> slice.
\<close>

definition candidates :: "string \<Rightarrow> string list" where
  "candidates raw = [drop i raw. i \<leftarrow> [0..<length raw], prefix marker (drop i raw)]"

definition decodesToOptions :: "decoder \<Rightarrow> string \<Rightarrow> bool" where
  "decodesToOptions dec segment = (fst (dec segment) = None \<and> Options (snd (dec segment)) \<noteq> [])"

definition keep :: "decoder \<Rightarrow> optionEntry list \<Rightarrow> string \<Rightarrow> optionEntry list" where
  "keep dec lastOpts segment =
     (if decodesToOptions dec segment then SliceStable lessOpts (Options (snd (dec segment)))
      else lastOpts)"

text \<open>A string in which no white-space rune starts at any offset.\<close>

definition noSpace :: "string \<Rightarrow> bool" where
  "noSpace w = (\<forall>i<length w. spaceWidth (drop i w) = 0)"

text \<open>
  A decoder that knows four documents and rejects everything else, an environment whose
  text area is its text and whose clipboard accepts every write, and the initial model
  with two runners: the concrete instances below run on them.
\<close>

definition sampleDecoder :: decoder where
  \<open>sampleDecoder segment =
     (if prefix ''{"options":[{"value":"ls","recommendation_order":2},{"value":"ls -la","recommendation_order":1}]}'' segment then
        (None, \<lparr>Options = [\<lparr>Value = ''ls'', Description = [], RecommendationOrder = 2\<rparr>,
                            \<lparr>Value = ''ls -la'', Description = [], RecommendationOrder = 1\<rparr>]\<rparr>)
      else if prefix ''{"options":[{"value":"ls"}]}'' segment then
        (None, \<lparr>Options = [\<lparr>Value = ''ls'', Description = [], RecommendationOrder = 0\<rparr>]\<rparr>)
      else if prefix ''{"options":[{"value":"pwd"}]}'' segment then
        (None, \<lparr>Options = [\<lparr>Value = ''pwd'', Description = [], RecommendationOrder = 0\<rparr>]\<rparr>)
      else if prefix ''{"options":[]}'' segment then (None, \<lparr>Options = []\<rparr>)
      else (Some ''invalid character'', \<lparr>Options = []\<rparr>))\<close>

definition sampleEnv :: "string env" where
  "sampleEnv =
     \<lparr>decodeJSON = sampleDecoder,
      clipboardWriteAll = (\<lambda>v. None),
      inputValue = (\<lambda>t. t),
      inputSetValue = (\<lambda>t v. v),
      inputFocus = (\<lambda>t. t),
      inputSetHeight = (\<lambda>t h. t),
      inputSetWidth = (\<lambda>t w. t),
      inputUpdate = (\<lambda>t ms. (t, 0))\<rparr>"

definition sampleModel :: "string model" where
  "sampleModel =
     \<lparr>cliOptions = [\<lparr>name = ''codex''\<rparr>, \<lparr>name = ''claude''\<rparr>],
      cliIndex = 0,
      input = ''list files'',
      mode = modeInput,
      running = False,
      width = 0,
      height = 0,
      ready = False,
      lastPrompt = [],
      status = helpInput,
      rawOutput = [],
      options = [],
      selected = 0,
      lastParseError = None,
      autoExecute = False,
      spinnerFrame = 0\<rparr>"

text \<open>A key, the output of a runner with two options, and the models of one exchange.\<close>

definition sampleKey :: "keyType \<Rightarrow> string \<Rightarrow> keyMsg" where
  "sampleKey t s = \<lparr>Type = t, Alt = False, keyString = s\<rparr>"

definition sampleOutput :: string where
  \<open>sampleOutput = ''{"options":[{"value":"ls","recommendation_order":2},{"value":"ls -la","recommendation_order":1}]}''\<close>

definition sampleResponse :: responseMsg where
  "sampleResponse = \<lparr>msgOutput = sampleOutput, err = None, cli = ''codex''\<rparr>"

definition sampleRunning :: "bool \<Rightarrow> string model" where
  "sampleRunning auto =
     sampleModel\<lparr>lastPrompt := ''list files'', running := True, mode := modeRunning,
                 status := [], autoExecute := auto\<rparr>"

definition sampleViewing :: "string model" where
  "sampleViewing =
     sampleModel\<lparr>lastPrompt := ''list files'', mode := modeViewing, status := helpViewing,
                 rawOutput := sampleOutput,
                 options := [\<lparr>Value = ''ls -la'', Description = [], RecommendationOrder = 1\<rparr>,
                             \<lparr>Value = ''ls'', Description = [], RecommendationOrder = 2\<rparr>]\<rparr>"

text \<open>
  A decoder that knows three documents of three options each, with the ranks 3, 1, 2, the
  ranks 0, 0, 0 and the ranks 0, 5, 0.
\<close>

definition rankDecoder :: decoder where
  \<open>rankDecoder segment =
     (if prefix ''{"options":[{"value":"rm","recommendation_order":3},{"value":"ls","recommendation_order":1},{"value":"cd","recommendation_order":2}]}'' segment then
        (None, \<lparr>Options = [\<lparr>Value = ''rm'', Description = [], RecommendationOrder = 3\<rparr>,
                            \<lparr>Value = ''ls'', Description = [], RecommendationOrder = 1\<rparr>,
                            \<lparr>Value = ''cd'', Description = [], RecommendationOrder = 2\<rparr>]\<rparr>)
      else if prefix ''{"options":[{"value":"rm"},{"value":"ls"},{"value":"cd"}]}'' segment then
        (None, \<lparr>Options = [\<lparr>Value = ''rm'', Description = [], RecommendationOrder = 0\<rparr>,
                            \<lparr>Value = ''ls'', Description = [], RecommendationOrder = 0\<rparr>,
                            \<lparr>Value = ''cd'', Description = [], RecommendationOrder = 0\<rparr>]\<rparr>)
      else if prefix ''{"options":[{"value":"rm"},{"value":"ls","recommendation_order":5},{"value":"cd"}]}'' segment then
        (None, \<lparr>Options = [\<lparr>Value = ''rm'', Description = [], RecommendationOrder = 0\<rparr>,
                            \<lparr>Value = ''ls'', Description = [], RecommendationOrder = 5\<rparr>,
                            \<lparr>Value = ''cd'', Description = [], RecommendationOrder = 0\<rparr>]\<rparr>)
      else (Some ''invalid character'', \<lparr>Options = []\<rparr>))\<close>

text \<open>
  A runner's output whose only option has a value with three blanks in a row, an
  environment whose decoder knows that document, the response that carries it and the
  viewing model \<open>handleResponse\<close> makes of it.
\<close>

definition spacedOutput :: string where
  \<open>spacedOutput = ''{"options":[{"value":"ls   -la"}]}''\<close>

definition spacedEnv :: "string env" where
  "spacedEnv =
     sampleEnv\<lparr>decodeJSON :=
       (\<lambda>segment.
          if prefix spacedOutput segment then
            (None, \<lparr>Options = [\<lparr>Value = ''ls   -la'', Description = [], RecommendationOrder = 0\<rparr>]\<rparr>)
          else (Some ''invalid character'', \<lparr>Options = []\<rparr>))\<rparr>"

definition spacedResponse :: responseMsg where
  "spacedResponse = \<lparr>msgOutput = spacedOutput, err = None, cli = ''codex''\<rparr>"

definition spacedViewing :: "string model" where
  "spacedViewing =
     sampleViewing\<lparr>rawOutput := spacedOutput,
                   options := [\<lparr>Value = ''ls   -la'', Description = [], RecommendationOrder = 0\<rparr>]\<rparr>"

text \<open>
  The invariant of the reachable models: the runner index and, when there are options,
  the selection index are within range. \<open>actionValue\<close> is the text a copy or a run acts
  on: the selected value, or the raw output when that is empty.
\<close>

definition wellFormed :: "'ta model \<Rightarrow> bool" where
  "wellFormed m =
     (0 \<le> cliIndex m \<and> cliIndex m < int (length (cliOptions m))
      \<and> (options m \<noteq> [] \<longrightarrow> 0 \<le> selected m \<and> selected m < int (length (options m))))"

definition actionValue :: "'ta model \<Rightarrow> string" where
  "actionValue m =
     (case selectedValue m of
        Inl p \<Rightarrow> []
      | Inr v \<Rightarrow> if v = [] then rawOutput m else v)"

section \<open>The ranking\<close>

lemma length_insRev: "length (insRev lt x ys) = Suc (length ys)"
  by (induction ys) simp_all

lemma length_swap: "length (swap xs i j) = length xs"
  by (simp add: swap_def)

lemma length_insertDown: "length (insertDown lessFn xs j) = length xs"
  by (induction j arbitrary: xs) (simp_all add: length_swap)

lemma lessOpts_later:
  "j < i \<Longrightarrow> lessOpts zs i j = sortsFirst (zs ! i) (zs ! j)"
  by (auto simp: lessOpts_def sortsFirst_def Let_def)

lemma insertDown_insRev:
  assumes "\<And>zs i j. j < i \<Longrightarrow> lessFn zs i j = lt (zs ! i) (zs ! j)"
  shows "j < length xs \<Longrightarrow>
     insertDown lessFn xs j = rev (insRev lt (xs ! j) (rev (take j xs))) @ drop (Suc j) xs"
proof (induction j arbitrary: xs)
  case 0
  then show ?case by (cases xs) simp_all
next
  case (Suc j)
  let ?x = "xs ! Suc j" and ?y = "xs ! j"
  have tk: "take (Suc j) xs = take j xs @ [?y]"
    using Suc.prems by (simp add: take_Suc_conv_app_nth)
  show ?case
  proof (cases "lt ?x ?y")
    case True
    let ?xs' = "swap xs (Suc j) j"
    have l: "j < length ?xs'" using Suc.prems by (simp add: length_swap)
    have a: "?xs' ! j = ?x" using Suc.prems by (simp add: swap_def)
    have b: "take j ?xs' = take j xs" by (simp add: swap_def)
    have c: "drop (Suc j) ?xs' = ?y # drop (Suc (Suc j)) xs"
      using Suc.prems by (simp add: swap_def drop_update_swap Cons_nth_drop_Suc[symmetric] drop_update_cancel)
    have "insertDown lessFn xs (Suc j) = insertDown lessFn ?xs' j"
      using True assms[of j "Suc j" xs] by simp
    also have "\<dots> = rev (insRev lt ?x (rev (take j xs))) @ ?y # drop (Suc (Suc j)) xs"
      using Suc.IH[OF l] a b c by simp
    finally show ?thesis using True tk by simp
  next
    case False
    have "insertDown lessFn xs (Suc j) = xs"
      using False assms[of j "Suc j" xs] by simp
    moreover have "xs = take j xs @ ?y # ?x # drop (Suc (Suc j)) xs"
      using Suc.prems
      by (metis Cons_nth_drop_Suc Suc_lessD append_take_drop_id)
    ultimately show ?thesis using False tk by simp
  qed
qed

lemma insertionSort_isortL:
  "(\<And>zs i j. j < i \<Longrightarrow> lessFn zs i j = lt (zs ! i) (zs ! j)) \<Longrightarrow> i \<le> b \<Longrightarrow> b \<le> length xs \<Longrightarrow>
     insertionSort lessFn xs i b = isortL lt (take i xs) (take (b - i) (drop i xs)) @ drop b xs"
proof (induction lessFn xs i b rule: insertionSort.induct)
  case (1 lessFn xs i b)
  note A = "1.prems"(1)
  show ?case
  proof (cases "i < b")
    case False
    with 1 show ?thesis by (subst insertionSort.simps) simp
  next
    case True
    let ?xs' = "insertDown lessFn xs i"
    have il: "i < length xs" using True 1 by simp
    have e: "?xs' = rev (insRev lt (xs ! i) (rev (take i xs))) @ drop (Suc i) xs"
      using insertDown_insRev[of lessFn lt, OF A il] by simp
    have len: "length (insRev lt (xs ! i) (rev (take i xs))) = Suc i"
      using il by (simp add: length_insRev)
    have t: "take (Suc i) ?xs' = rev (insRev lt (xs ! i) (rev (take i xs)))"
      by (subst e) (simp add: len)
    have d: "drop (Suc i) ?xs' = drop (Suc i) xs"
      by (subst e) (simp add: len)
    have "drop b ys = drop (b - Suc i) (drop (Suc i) ys)" for ys :: "'a list"
      using True by simp
    with d have d2: "drop b ?xs' = drop b xs" by metis
    have "insertionSort lessFn xs i b = insertionSort lessFn ?xs' (i + 1) b"
      using True by (subst insertionSort.simps) simp
    also have "\<dots> = isortL lt (take (i + 1) ?xs') (take (b - (i + 1)) (drop (i + 1) ?xs')) @ drop b ?xs'"
      using "1.IH"[OF True A] True "1.prems" by (simp add: length_insertDown)
    also have "\<dots> = isortL lt (rev (insRev lt (xs ! i) (rev (take i xs)))) (take (b - Suc i) (drop (Suc i) xs)) @ drop b xs"
      using t d d2 by simp
    also have "\<dots> = isortL lt (take i xs) (take (b - i) (drop i xs)) @ drop b xs"
    proof -
      have "drop i xs = xs ! i # drop (Suc i) xs"
        using il by (simp add: Cons_nth_drop_Suc)
      moreover have "b - i = Suc (b - Suc i)" using True by simp
      ultimately have "take (b - i) (drop i xs) = xs ! i # take (b - Suc i) (drop (Suc i) xs)"
        by (simp only: take_Suc_Cons)
      then show ?thesis by simp
    qed
    finally show ?thesis .
  qed
qed

lemma SliceStable_isortL:
  assumes "\<And>zs i j. j < i \<Longrightarrow> lessFn zs i j = lt (zs ! i) (zs ! j)"
  shows "SliceStable lessFn xs = isortL lt [] xs"
proof (cases xs)
  case Nil
  then show ?thesis by (simp add: SliceStable_def insertionSort.simps)
next
  case (Cons x xs')
  then show ?thesis
    using insertionSort_isortL[of lessFn lt 1 "length xs" xs, OF assms]
    by (simp add: SliceStable_def)
qed


lemma mset_insRev: "mset (insRev lt x ys) = add_mset x (mset ys)"
  by (induction ys) simp_all

lemma mset_isortL: "mset (isortL lt acc xs) = mset acc + mset xs"
  by (induction xs arbitrary: acc) (simp_all add: mset_insRev)

text \<open>On the reversed list: no element sorts first over one that stands behind it.\<close>

lemma set_insRev: "set (insRev lt x ys) = insert x (set ys)"
  by (induction ys) auto

lemma sorted_insRev:
  "sorted_wrt (\<lambda>a b. \<not> sortsFirst a b) ys \<Longrightarrow>
   sorted_wrt (\<lambda>a b. \<not> sortsFirst a b) (insRev sortsFirst x ys)"
proof (induction ys)
  case Nil
  then show ?case by simp
next
  case (Cons y ys)
  show ?case
  proof (cases "sortsFirst x y")
    case True
    have "\<not> sortsFirst y x" using True by (auto simp: sortsFirst_def)
    with Cons True show ?thesis by (auto simp: set_insRev)
  next
    case False
    have "\<forall>z\<in>set ys. \<not> sortsFirst x z"
    proof
      fix z assume "z \<in> set ys"
      with Cons.prems have "\<not> sortsFirst y z" by simp
      with False show "\<not> sortsFirst x z" by (auto simp: sortsFirst_def)
    qed
    with Cons.prems False show ?thesis by simp
  qed
qed

lemma sorted_isortL:
  "sorted_wrt (\<lambda>a b. \<not> sortsFirst b a) acc \<Longrightarrow>
   sorted_wrt (\<lambda>a b. \<not> sortsFirst b a) (isortL sortsFirst acc xs)"
proof (induction xs arbitrary: acc)
  case Nil
  then show ?case by simp
next
  case (Cons x xs)
  from Cons.prems have "sorted_wrt (\<lambda>a b. \<not> sortsFirst a b) (rev acc)"
    by (simp add: sorted_wrt_rev)
  then have "sorted_wrt (\<lambda>a b. \<not> sortsFirst a b) (insRev sortsFirst x (rev acc))"
    by (rule sorted_insRev)
  then have "sorted_wrt (\<lambda>a b. \<not> sortsFirst b a) (rev (insRev sortsFirst x (rev acc)))"
    by (simp add: sorted_wrt_rev)
  then show ?case using Cons.IH by simp
qed

lemma filter_insRev:
  "filter (tied k) (insRev sortsFirst x ys) = (if tied k x then [x] else []) @ filter (tied k) ys"
proof (induction ys)
  case Nil
  then show ?case by simp
next
  case (Cons y ys)
  have "sortsFirst x y \<Longrightarrow> \<not> (tied k x \<and> tied k y)"
    by (auto simp: tied_def sortsFirst_def)
  with Cons show ?case by auto
qed

lemma filter_isortL:
  "filter (tied k) (isortL sortsFirst acc xs) = filter (tied k) acc @ filter (tied k) xs"
proof (induction xs arbitrary: acc)
  case Nil
  then show ?case by simp
next
  case (Cons x xs)
  show ?case
    by (simp add: Cons.IH filter_insRev rev_filter[symmetric])
qed

lemma SliceStable_lessOpts: "SliceStable lessOpts opts = isortL sortsFirst [] opts"
  by (rule SliceStable_isortL) (rule lessOpts_later)

lemma length_SliceStable_lessOpts: "length (SliceStable lessOpts opts) = length opts"
  using mset_isortL[of sortsFirst "[]" opts] SliceStable_lessOpts[of opts]
  by (metis add.left_neutral mset.simps(1) size_mset)


lemma sortsFirst_irrefl: "\<not> sortsFirst a a"
  by (auto simp: sortsFirst_def)

lemma tied_refl: "tied a a"
  by (simp add: tied_def sortsFirst_irrefl)

lemma ranked_lists_equal:
  "sorted_wrt (\<lambda>a b. \<not> sortsFirst b a) ys \<Longrightarrow> sorted_wrt (\<lambda>a b. \<not> sortsFirst b a) zs \<Longrightarrow>
   (\<And>k. filter (tied k) ys = filter (tied k) zs) \<Longrightarrow> ys = zs"
proof (induction ys arbitrary: zs)
  case Nil
  show ?case
  proof (cases zs)
    case Nil
    then show ?thesis by simp
  next
    case (Cons z zs')
    with Nil.prems(3)[of z] show ?thesis by (simp add: tied_refl)
  qed
next
  case (Cons y ys')
  show ?case
  proof (cases zs)
    case Nil
    with Cons.prems(3)[of y] show ?thesis by (simp add: tied_refl)
  next
    case zs: (Cons z zs')
    have "z \<in> set (filter (tied z) (y # ys'))"
      using Cons.prems(3)[of z] zs by (simp add: tied_refl)
    then have "z \<in> set (y # ys')" by (metis filter_is_subset subsetD)
    with Cons.prems(1) have a: "\<not> sortsFirst z y" by (auto simp: sortsFirst_irrefl)
    have "y \<in> set (filter (tied y) zs)"
      using Cons.prems(3)[of y] by (metis filter.simps(2) list.set_intros(1) tied_refl)
    then have "y \<in> set (z # zs')" using zs by (metis filter_is_subset subsetD)
    with Cons.prems(2) zs have b: "\<not> sortsFirst y z" by (auto simp: sortsFirst_irrefl)
    from a b have t: "tied y z" by (simp add: tied_def)
    with Cons.prems(3)[of y] zs have yz: "y = z" by (simp add: tied_refl)
    have "ys' = zs'"
    proof (rule Cons.IH)
      show "sorted_wrt (\<lambda>a b. \<not> sortsFirst b a) ys'" using Cons.prems(1) by simp
      show "sorted_wrt (\<lambda>a b. \<not> sortsFirst b a) zs'" using Cons.prems(2) zs by simp
      show "filter (tied k) ys' = filter (tied k) zs'" for k
        using Cons.prems(3)[of k] zs yz by (simp split: if_splits)
    qed
    with yz zs show ?thesis by simp
  qed
qed

lemma SliceStable_lessOpts_props:
  "mset (SliceStable lessOpts opts) = mset opts"
  "sorted_wrt (\<lambda>a b. \<not> sortsFirst b a) (SliceStable lessOpts opts)"
  "filter (tied k) (SliceStable lessOpts opts) = filter (tied k) opts"
  by (simp_all add: SliceStable_lessOpts mset_isortL sorted_isortL filter_isortL)

section \<open>The scan of \<open>parseOptions\<close>\<close>

lemma candidates_Nil [simp]: "candidates [] = []"
  by (simp add: candidates_def)

lemma candidates_Cons [simp]:
  "candidates (c # cs) = (if prefix marker (c # cs) then [c # cs] else []) @ candidates cs"
proof -
  have "[0..<length (c # cs)] = 0 # map Suc [0..<length cs]"
    by (simp add: upt_conv_Cons map_Suc_upt del: upt_Suc)
  then show ?thesis
    by (simp add: candidates_def comp_def del: upt_Suc cong: if_cong)
qed

lemma marker_not_Nil: "marker \<noteq> []"
  by (simp add: marker_def)

lemma Index_neg_candidates: "Index s marker < 0 \<Longrightarrow> candidates s = []"
  by (induction s) (auto simp: Let_def marker_not_Nil split: if_splits)

lemma candidates_skip:
  assumes "prefix marker s"
  shows "candidates s = s # candidates (drop 9 s)"
proof -
  from assms obtain r where "s = marker @ r" by (auto simp: prefix_def)
  then show ?thesis by (simp add: marker_def)
qed

lemma Index_candidates:
  "0 \<le> Index s marker \<Longrightarrow>
   candidates s = drop (nat (Index s marker)) s # candidates (drop (nat (Index s marker) + 9) s)"
proof (induction s)
  case Nil
  then show ?case by (simp add: marker_not_Nil)
next
  case (Cons c cs)
  show ?case
  proof (cases "prefix marker (c # cs)")
    case True
    then show ?thesis using candidates_skip[OF True] by simp
  next
    case False
    with Cons.prems have nn: "0 \<le> Index cs marker" and e: "Index (c # cs) marker = Index cs marker + 1"
      by (simp_all add: Let_def split: if_splits)
    have k: "nat (Index (c # cs) marker) = Suc (nat (Index cs marker))"
      using nn e by simp
    have "candidates (c # cs) = candidates cs" using False by simp
    also have "\<dots> = drop (nat (Index cs marker)) cs # candidates (drop (nat (Index cs marker) + 9) cs)"
      by (rule Cons.IH[OF nn])
    also have "\<dots> = drop (nat (Index (c # cs) marker)) (c # cs)
                      # candidates (drop (nat (Index (c # cs) marker) + 9) (c # cs))"
      by (simp only: k add_Suc drop_Suc_Cons)
    finally show ?thesis .
  qed
qed

lemma parseLoop_step:
  \<open>\<not> Index search marker < 0 \<Longrightarrow>
   parseLoop dec search lastOpts =
     parseLoop dec (drop (nat (Index search marker) + 9) search)
       (keep dec lastOpts (drop (nat (Index search marker)) search))\<close>
proof -
  assume a: "\<not> Index search marker < 0"
  have L: \<open>length ''{"options'' = 9\<close> by simp
  have K: "(case dec seg of (er, resp) \<Rightarrow>
              if er = None \<and> length (Options resp) > 0
              then SliceStable lessOpts (Options resp) else lastOpts)
           = keep dec lastOpts seg" for seg
    by (simp add: keep_def decodesToOptions_def split: prod.splits)
  show ?thesis
    by (subst parseLoop.simps) (simp only: a if_False L K)
qed

lemma parseLoop_foldl:
  "parseLoop dec search lastOpts = foldl (keep dec) lastOpts (candidates search)"
proof (induction "length search" arbitrary: search lastOpts rule: less_induct)
  case less
  show ?case
  proof (cases "Index search marker < 0")
    case True
    then show ?thesis by (subst parseLoop.simps) (simp add: Index_neg_candidates)
  next
    case False
    then have nn: "0 \<le> Index search marker" by simp
    let ?k = "nat (Index search marker)"
    have "?k + length marker \<le> length search" using Index_bound[OF nn] .
    then have shorter: "length (drop (?k + 9) search) < length search"
      by (simp add: marker_def)
    have "parseLoop dec search lastOpts
          = parseLoop dec (drop (?k + 9) search) (keep dec lastOpts (drop ?k search))"
      by (rule parseLoop_step[OF False])
    also have "\<dots> = foldl (keep dec) (keep dec lastOpts (drop ?k search)) (candidates (drop (?k + 9) search))"
      by (rule less.hyps[OF shorter])
    also have "\<dots> = foldl (keep dec) lastOpts (candidates search)"
    proof -
      have C: "candidates search = drop ?k search # candidates (drop (?k + 9) search)"
        by (rule Index_candidates[OF nn])
      show ?thesis by (simp only: C foldl_Cons)
    qed
    finally show ?thesis .
  qed
qed

lemma foldl_keep:
  "foldl (keep dec) acc segs =
     (case filter (decodesToOptions dec) segs of
        [] \<Rightarrow> acc
      | g # gs \<Rightarrow> SliceStable lessOpts (Options (snd (dec (last (g # gs))))))"
proof (induction segs arbitrary: acc)
  case Nil
  then show ?case by simp
next
  case (Cons s segs)
  show ?case
  proof (cases "decodesToOptions dec s")
    case True
    then have "foldl (keep dec) acc (s # segs)
               = foldl (keep dec) (SliceStable lessOpts (Options (snd (dec s)))) segs"
      by (simp add: keep_def)
    also have "\<dots> = (case filter (decodesToOptions dec) segs of
        [] \<Rightarrow> SliceStable lessOpts (Options (snd (dec s)))
      | g # gs \<Rightarrow> SliceStable lessOpts (Options (snd (dec (last (g # gs))))))"
      by (rule Cons.IH)
    finally show ?thesis using True by (simp split: list.splits)
  next
    case False
    then have "foldl (keep dec) acc (s # segs) = foldl (keep dec) acc segs"
      by (simp add: keep_def)
    then show ?thesis using False Cons.IH[of acc] by simp
  qed
qed


lemma parseOptions_candidates:
  "parseOptions dec raw =
     (case filter (decodesToOptions dec) (candidates raw) of
        [] \<Rightarrow> ([], Some parseError)
      | g # gs \<Rightarrow> (SliceStable lessOpts (Options (snd (dec (last (g # gs))))), None))"
proof (cases "filter (decodesToOptions dec) (candidates raw)")
  case Nil
  then show ?thesis
    by (simp add: parseOptions_def parseLoop_foldl foldl_keep)
next
  case (Cons g gs)
  have "last (g # gs) \<in> set (filter (decodesToOptions dec) (candidates raw))"
    using Cons by simp
  then have "decodesToOptions dec (last (g # gs))" by simp
  then have "length (SliceStable lessOpts (Options (snd (dec (last (g # gs)))))) > 0"
    by (simp add: length_SliceStable_lessOpts decodesToOptions_def)
  with Cons show ?thesis
    by (simp add: parseOptions_def parseLoop_foldl foldl_keep Let_def)
qed

lemma candidates_empty_iff: "candidates raw = [] \<longleftrightarrow> \<not> sublist marker raw"
  by (induction raw) (auto simp: marker_not_Nil sublist_Cons_right)

lemma filter_last_split:
  "filter P xs = g # gs \<Longrightarrow>
   \<exists>before after. xs = before @ last (g # gs) # after \<and> P (last (g # gs))
      \<and> (\<forall>s\<in>set after. \<not> P s)"
proof (induction xs arbitrary: g gs rule: rev_induct)
  case Nil
  then show ?case by simp
next
  case (snoc x xs)
  show ?case
  proof (cases "P x")
    case True
    with snoc.prems have "filter P xs @ [x] = g # gs" by simp
    then have "last (g # gs) = x" by (metis last_snoc)
    with True show ?thesis by (intro exI[of _ xs] exI[of _ "[]"]) simp
  next
    case False
    with snoc.prems have "filter P xs = g # gs" by simp
    from snoc.IH[OF this] obtain before after where
      s: "xs = before @ last (g # gs) # after" "P (last (g # gs))" "\<forall>s\<in>set after. \<not> P s"
      by blast
    show ?thesis
      by (intro exI[of _ before] exI[of _ "after @ [x]"]) (use s False in auto)
  qed
qed

lemma parseOptions_split:
  assumes "candidates raw = before @ g # after" "decodesToOptions dec g"
    "\<forall>s\<in>set after. \<not> decodesToOptions dec s"
  shows "parseOptions dec raw = (SliceStable lessOpts (Options (snd (dec g))), None)"
proof -
  from assms(3) have "filter (decodesToOptions dec) after = []" by (simp add: filter_empty_conv)
  with assms(1,2) have "filter (decodesToOptions dec) (candidates raw)
               = filter (decodesToOptions dec) before @ [g]" by simp
  then show ?thesis
    by (cases "filter (decodesToOptions dec) before") (simp_all add: parseOptions_candidates)
qed

lemma parseOptions_success_split:
  assumes "parseOptions dec raw = (opts, None)"
  shows "\<exists>before g after. candidates raw = before @ g # after \<and> decodesToOptions dec g
           \<and> (\<forall>s\<in>set after. \<not> decodesToOptions dec s)"
proof (cases "filter (decodesToOptions dec) (candidates raw)")
  case Nil
  with assms show ?thesis by (simp add: parseOptions_candidates)
next
  case (Cons g gs)
  from filter_last_split[OF Cons] show ?thesis by blast
qed

lemma parseOptions_values:
  assumes "parseOptions dec raw = (opts, None)"
  shows "\<exists>g\<in>set (candidates raw). decodesToOptions dec g \<and> mset opts = mset (Options (snd (dec g)))"
proof (cases "filter (decodesToOptions dec) (candidates raw)")
  case Nil
  with assms show ?thesis by (simp add: parseOptions_candidates)
next
  case (Cons g gs)
  then have "last (g # gs) \<in> set (filter (decodesToOptions dec) (candidates raw))"
    by (metis last_in_set list.distinct(1))
  then have l: "last (g # gs) \<in> set (candidates raw)" "decodesToOptions dec (last (g # gs))"
    by simp_all
  from assms Cons have "opts = SliceStable lessOpts (Options (snd (dec (last (g # gs)))))"
    by (simp add: parseOptions_candidates)
  then have "mset opts = mset (Options (snd (dec (last (g # gs)))))"
    by (simp add: SliceStable_lessOpts_props)
  with l show ?thesis by blast
qed

text \<open>
  C1. The result of \<open>parseOptions\<close> is that of the last candidate, in the left-to-right
  order of the marker's occurrences, that decodes to a non-empty options slice: whatever
  stands before it is overwritten, and candidates behind it that do not decode leave it
  in place.
\<close>

theorem parseOptions_last_candidate:
  "parseOptions dec raw =
     (case filter (decodesToOptions dec) (candidates raw) of
        [] \<Rightarrow> ([], Some parseError)
      | g # gs \<Rightarrow> (SliceStable lessOpts (Options (snd (dec (last (g # gs))))), None))
   \<and> (\<forall>before g after.
         candidates raw = before @ g # after \<and> decodesToOptions dec g
           \<and> (\<forall>s\<in>set after. \<not> decodesToOptions dec s)
         \<longrightarrow> parseOptions dec raw = (SliceStable lessOpts (Options (snd (dec g))), None))"
proof (intro conjI allI impI)
  show "parseOptions dec raw =
     (case filter (decodesToOptions dec) (candidates raw) of
        [] \<Rightarrow> ([], Some parseError)
      | g # gs \<Rightarrow> (SliceStable lessOpts (Options (snd (dec (last (g # gs))))), None))"
    by (rule parseOptions_candidates)
next
  fix before g after
  assume a: "candidates raw = before @ g # after \<and> decodesToOptions dec g
           \<and> (\<forall>s\<in>set after. \<not> decodesToOptions dec s)"
  then have "filter (decodesToOptions dec) after = []" by (simp add: filter_empty_conv)
  with a have "filter (decodesToOptions dec) (candidates raw)
               = filter (decodesToOptions dec) before @ [g]" by simp
  then show "parseOptions dec raw = (SliceStable lessOpts (Options (snd (dec g))), None)"
    by (cases "filter (decodesToOptions dec) before") (simp_all add: parseOptions_candidates)
qed

lemma SliceStable_single: "SliceStable lessFn [x] = [x]"
  by (simp add: SliceStable_def insertionSort.simps)

theorem parseOptions_last_candidate_witness:
  \<open>candidates ''{"options":[{"value":"ls"}]} {"options":[{"value":"pwd"}]}''
     = [''{"options":[{"value":"ls"}]} {"options":[{"value":"pwd"}]}'']
       @ ''{"options":[{"value":"pwd"}]}'' # []
   \<and> decodesToOptions sampleDecoder ''{"options":[{"value":"pwd"}]}''
   \<and> parseOptions sampleDecoder ''{"options":[{"value":"ls"}]} {"options":[{"value":"pwd"}]}''
       = ([\<lparr>Value = ''pwd'', Description = [], RecommendationOrder = 0\<rparr>], None)
   \<and> candidates ''{"options":[{"value":"ls"}]} {"options":[{"val''
     = [''{"options":[{"value":"ls"}]} {"options":[{"val''] @ [''{"options":[{"val'']
   \<and> \<not> decodesToOptions sampleDecoder ''{"options":[{"val''
   \<and> parseOptions sampleDecoder ''{"options":[{"value":"ls"}]} {"options":[{"val''
       = ([\<lparr>Value = ''ls'', Description = [], RecommendationOrder = 0\<rparr>], None)\<close>
  using
    parseOptions_last_candidate[of sampleDecoder
      \<open>''{"options":[{"value":"ls"}]} {"options":[{"value":"pwd"}]}''\<close>]
    parseOptions_last_candidate[of sampleDecoder
      \<open>''{"options":[{"value":"ls"}]} {"options":[{"val''\<close>]
  by (simp add: marker_def sampleDecoder_def decodesToOptions_def SliceStable_single)

text \<open>
  C7. When no candidate decodes to a non-empty options slice (the decoder reports an
  error, or the slice it returns is empty), and so also when the text holds no marker,
  \<open>parseOptions\<close> returns its error and no options.
\<close>

theorem parseOptions_no_candidate:
  "(\<forall>s\<in>set (candidates raw). fst (dec s) \<noteq> None \<or> Options (snd (dec s)) = [])
   \<longrightarrow> parseOptions dec raw = ([], Some parseError)"
proof
  assume "\<forall>s\<in>set (candidates raw). fst (dec s) \<noteq> None \<or> Options (snd (dec s)) = []"
  then have "filter (decodesToOptions dec) (candidates raw) = []"
    by (auto simp: filter_empty_conv decodesToOptions_def)
  then show "parseOptions dec raw = ([], Some parseError)"
    by (simp add: parseOptions_candidates)
qed

theorem parseOptions_no_candidate_witness:
  \<open>candidates ''{"options":[]} {"options":7}'' = [''{"options":[]} {"options":7}'', ''{"options":7}'']
   \<and> sampleDecoder ''{"options":[]} {"options":7}'' = (None, \<lparr>Options = []\<rparr>)
   \<and> fst (sampleDecoder ''{"options":7}'') \<noteq> None
   \<and> parseOptions sampleDecoder ''{"options":[]} {"options":7}'' = ([], Some parseError)
   \<and> candidates ''I think you want: ls -la'' = []
   \<and> parseOptions sampleDecoder ''I think you want: ls -la'' = ([], Some parseError)\<close>
  using
    parseOptions_no_candidate[of \<open>''{"options":[]} {"options":7}''\<close> sampleDecoder]
    parseOptions_no_candidate[of \<open>''I think you want: ls -la''\<close> sampleDecoder]
  by (simp add: marker_def sampleDecoder_def)

text \<open>
  C9. \<open>parseOptions\<close> succeeds only on a text that holds the marker, the opening brace
  immediately followed by the quoted key: without it the result is the error whatever
  the decoder would make of the text, as for an object with a blank after the brace and
  for an object that lists another key first.
\<close>

theorem parseOptions_needs_marker:
  \<open>(snd (parseOptions dec raw) = None \<longrightarrow> sublist marker raw)
   \<and> (\<not> sublist marker raw \<longrightarrow> parseOptions dec raw = ([], Some parseError))
   \<and> parseOptions dec ''{ "options": [{"value":"ls"}] }'' = ([], Some parseError)
   \<and> parseOptions dec ''{"note":"x","options":[{"value":"ls"}]}'' = ([], Some parseError)\<close>
proof -
  have n: "parseOptions dec r = ([], Some parseError)" if "\<not> sublist marker r" for r
    using that by (simp add: parseOptions_candidates candidates_empty_iff[symmetric])
  have \<open>candidates ''{ "options": [{"value":"ls"}] }'' = []\<close>
    by (simp add: marker_def)
  then have a: \<open>\<not> sublist marker ''{ "options": [{"value":"ls"}] }''\<close>
    using candidates_empty_iff by blast
  have \<open>candidates ''{"note":"x","options":[{"value":"ls"}]}'' = []\<close>
    by (simp add: marker_def)
  then have b: \<open>\<not> sublist marker ''{"note":"x","options":[{"value":"ls"}]}''\<close>
    using candidates_empty_iff by blast
  have c: "sublist marker raw" if "snd (parseOptions dec raw) = None"
  proof (rule ccontr)
    assume "\<not> sublist marker raw"
    then have "parseOptions dec raw = ([], Some parseError)" by (rule n)
    with that show False by simp
  qed
  show ?thesis
  proof (intro conjI impI)
    show "sublist marker raw" if "snd (parseOptions dec raw) = None" using that by (rule c)
    show "parseOptions dec raw = ([], Some parseError)" if "\<not> sublist marker raw"
      using that by (rule n)
    show \<open>parseOptions dec ''{ "options": [{"value":"ls"}] }'' = ([], Some parseError)\<close>
      by (rule n[OF a])
    show \<open>parseOptions dec ''{"note":"x","options":[{"value":"ls"}]}'' = ([], Some parseError)\<close>
      by (rule n[OF b])
  qed
qed

theorem parseOptions_needs_marker_witness:
  \<open>\<not> sublist marker ''{ "options": [{"value":"ls"}] }''
   \<and> parseOptions (\<lambda>s. (None, \<lparr>Options = [\<lparr>Value = ''ls'', Description = [], RecommendationOrder = 0\<rparr>]\<rparr>))
         ''{ "options": [{"value":"ls"}] }'' = ([], Some parseError)
   \<and> sublist marker ''x{"options":[{"value":"ls"}]}''
   \<and> snd (parseOptions sampleDecoder ''x{"options":[{"value":"ls"}]}'') = None\<close>
proof -
  have \<open>candidates ''{ "options": [{"value":"ls"}] }'' = []\<close>
    by (simp add: marker_def)
  then have a: \<open>\<not> sublist marker ''{ "options": [{"value":"ls"}] }''\<close>
    using candidates_empty_iff by blast
  have b: \<open>snd (parseOptions sampleDecoder ''x{"options":[{"value":"ls"}]}'') = None\<close>
    by (simp add: parseOptions_candidates marker_def sampleDecoder_def decodesToOptions_def)
  show ?thesis
    using a b
      parseOptions_needs_marker[of "\<lambda>s. (None, \<lparr>Options = [\<lparr>Value = ''ls'', Description = [], RecommendationOrder = 0\<rparr>]\<rparr>)"
        \<open>''{ "options": [{"value":"ls"}] }''\<close>]
      parseOptions_needs_marker[of sampleDecoder \<open>''x{"options":[{"value":"ls"}]}''\<close>]
    by simp
qed


subsection \<open>The ranking of the result\<close>

text \<open>
  C2. The ranking \<open>parseOptions\<close> returns is a stable sort under the order of the
  specification. When \<open>g\<close> is the last candidate that decodes to options, the call
  succeeds and its result is a permutation of the options decoded from \<open>g\<close>, no entry
  stands behind one it sorts first over, tied entries keep their decode order, and no
  other list has these properties; decoded ranks 3, 1, 2 come out in the order of the
  original indices 1, 2, 0, ranks 0, 0, 0 stay as they are, and ranks 0, 5, 0 put the
  ranked entry first and keep the other two in order. Every successful result arises in
  this way.
\<close>

theorem ranking_stable_sort:
  "(candidates raw = before @ g # after \<and> decodesToOptions dec g
      \<and> (\<forall>s\<in>set after. \<not> decodesToOptions dec s)
    \<longrightarrow> snd (parseOptions dec raw) = None
        \<and> mset (fst (parseOptions dec raw)) = mset (Options (snd (dec g)))
        \<and> sorted_wrt (\<lambda>a b. \<not> sortsFirst b a) (fst (parseOptions dec raw))
        \<and> (\<forall>k. filter (tied k) (fst (parseOptions dec raw)) = filter (tied k) (Options (snd (dec g))))
        \<and> (\<forall>ys. sorted_wrt (\<lambda>a b. \<not> sortsFirst b a) ys
                 \<and> (\<forall>k. filter (tied k) ys = filter (tied k) (Options (snd (dec g))))
               \<longrightarrow> ys = fst (parseOptions dec raw))
        \<and> (Options (snd (dec g)) = [a, b, c] \<and> RecommendationOrder a = 3
              \<and> RecommendationOrder b = 1 \<and> RecommendationOrder c = 2
            \<longrightarrow> parseOptions dec raw = ([b, c, a], None))
        \<and> (Options (snd (dec g)) = [a, b, c] \<and> RecommendationOrder a = 0
              \<and> RecommendationOrder b = 0 \<and> RecommendationOrder c = 0
            \<longrightarrow> parseOptions dec raw = ([a, b, c], None))
        \<and> (Options (snd (dec g)) = [a, b, c] \<and> RecommendationOrder a = 0
              \<and> RecommendationOrder b = 5 \<and> RecommendationOrder c = 0
            \<longrightarrow> parseOptions dec raw = ([b, a, c], None)))
   \<and> (parseOptions dec raw = (opts, None) \<longrightarrow>
        (\<exists>before g after. candidates raw = before @ g # after \<and> decodesToOptions dec g
            \<and> (\<forall>s\<in>set after. \<not> decodesToOptions dec s)
            \<and> mset opts = mset (Options (snd (dec g)))
            \<and> sorted_wrt (\<lambda>a b. \<not> sortsFirst b a) opts
            \<and> (\<forall>k. filter (tied k) opts = filter (tied k) (Options (snd (dec g))))))"
proof -
  have c1: "snd (parseOptions dec raw) = None
        \<and> mset (fst (parseOptions dec raw)) = mset (Options (snd (dec g)))
        \<and> sorted_wrt (\<lambda>a b. \<not> sortsFirst b a) (fst (parseOptions dec raw))
        \<and> (\<forall>k. filter (tied k) (fst (parseOptions dec raw)) = filter (tied k) (Options (snd (dec g))))
        \<and> (\<forall>ys. sorted_wrt (\<lambda>a b. \<not> sortsFirst b a) ys
                 \<and> (\<forall>k. filter (tied k) ys = filter (tied k) (Options (snd (dec g))))
               \<longrightarrow> ys = fst (parseOptions dec raw))
        \<and> (Options (snd (dec g)) = [a, b, c] \<and> RecommendationOrder a = 3
              \<and> RecommendationOrder b = 1 \<and> RecommendationOrder c = 2
            \<longrightarrow> parseOptions dec raw = ([b, c, a], None))
        \<and> (Options (snd (dec g)) = [a, b, c] \<and> RecommendationOrder a = 0
              \<and> RecommendationOrder b = 0 \<and> RecommendationOrder c = 0
            \<longrightarrow> parseOptions dec raw = ([a, b, c], None))
        \<and> (Options (snd (dec g)) = [a, b, c] \<and> RecommendationOrder a = 0
              \<and> RecommendationOrder b = 5 \<and> RecommendationOrder c = 0
            \<longrightarrow> parseOptions dec raw = ([b, a, c], None))"
    if h: "candidates raw = before @ g # after \<and> decodesToOptions dec g
      \<and> (\<forall>s\<in>set after. \<not> decodesToOptions dec s)"
  proof -
    let ?d = "Options (snd (dec g))"
    have p: "parseOptions dec raw = (SliceStable lessOpts ?d, None)"
      using h by (intro parseOptions_split[where before=before and after=after]) simp_all
    have u: "ys = SliceStable lessOpts ?d"
      if "sorted_wrt (\<lambda>a b. \<not> sortsFirst b a) ys \<and> (\<forall>k. filter (tied k) ys = filter (tied k) ?d)"
      for ys
    proof (rule ranked_lists_equal)
      show "sorted_wrt (\<lambda>a b. \<not> sortsFirst b a) ys" using that by simp
      show "sorted_wrt (\<lambda>a b. \<not> sortsFirst b a) (SliceStable lessOpts ?d)"
        by (rule SliceStable_lessOpts_props)
      show "filter (tied k) ys = filter (tied k) (SliceStable lessOpts ?d)" for k
        using that by (simp add: SliceStable_lessOpts_props)
    qed
    have e1: "SliceStable lessOpts [a, b, c] = [b, c, a]"
      if "RecommendationOrder a = 3 \<and> RecommendationOrder b = 1 \<and> RecommendationOrder c = 2"
      using that by (simp add: SliceStable_lessOpts sortsFirst_def)
    have e2: "SliceStable lessOpts [a, b, c] = [a, b, c]"
      if "RecommendationOrder a = 0 \<and> RecommendationOrder b = 0 \<and> RecommendationOrder c = 0"
      using that by (simp add: SliceStable_lessOpts sortsFirst_def)
    have e3: "SliceStable lessOpts [a, b, c] = [b, a, c]"
      if "RecommendationOrder a = 0 \<and> RecommendationOrder b = 5 \<and> RecommendationOrder c = 0"
      using that by (simp add: SliceStable_lessOpts sortsFirst_def)
    show ?thesis
      using u e1 e2 e3 by (simp add: p SliceStable_lessOpts_props)
  qed
  have c2: "\<exists>before g after. candidates raw = before @ g # after \<and> decodesToOptions dec g
            \<and> (\<forall>s\<in>set after. \<not> decodesToOptions dec s)
            \<and> mset opts = mset (Options (snd (dec g)))
            \<and> sorted_wrt (\<lambda>a b. \<not> sortsFirst b a) opts
            \<and> (\<forall>k. filter (tied k) opts = filter (tied k) (Options (snd (dec g))))"
    if h: "parseOptions dec raw = (opts, None)"
  proof -
    from parseOptions_success_split[OF h] obtain before g after where
      s: "candidates raw = before @ g # after" "decodesToOptions dec g"
         "\<forall>s\<in>set after. \<not> decodesToOptions dec s" by blast
    from parseOptions_split[OF s] h have "opts = SliceStable lessOpts (Options (snd (dec g)))"
      by simp
    with s show ?thesis
      by (intro exI[of _ before] exI[of _ g] exI[of _ after]) (simp add: SliceStable_lessOpts_props)
  qed
  show ?thesis using c1 c2 by blast
qed

theorem ranking_stable_sort_witness:
  \<open>candidates ''{"options":[{"value":"rm"},{"value":"ls"},{"value":"cd"}]} {"options":[{"value":"rm","recommendation_order":3},{"value":"ls","recommendation_order":1},{"value":"cd","recommendation_order":2}]} {"options":[{"val''
     = [''{"options":[{"value":"rm"},{"value":"ls"},{"value":"cd"}]} {"options":[{"value":"rm","recommendation_order":3},{"value":"ls","recommendation_order":1},{"value":"cd","recommendation_order":2}]} {"options":[{"val'']
       @ ''{"options":[{"value":"rm","recommendation_order":3},{"value":"ls","recommendation_order":1},{"value":"cd","recommendation_order":2}]} {"options":[{"val''
       # [''{"options":[{"val'']
   \<and> decodesToOptions rankDecoder ''{"options":[{"value":"rm","recommendation_order":3},{"value":"ls","recommendation_order":1},{"value":"cd","recommendation_order":2}]} {"options":[{"val''
   \<and> \<not> decodesToOptions rankDecoder ''{"options":[{"val''
   \<and> Options (snd (rankDecoder ''{"options":[{"value":"rm","recommendation_order":3},{"value":"ls","recommendation_order":1},{"value":"cd","recommendation_order":2}]} {"options":[{"val''))
     = [\<lparr>Value = ''rm'', Description = [], RecommendationOrder = 3\<rparr>,
        \<lparr>Value = ''ls'', Description = [], RecommendationOrder = 1\<rparr>,
        \<lparr>Value = ''cd'', Description = [], RecommendationOrder = 2\<rparr>]
   \<and> parseOptions rankDecoder ''{"options":[{"value":"rm"},{"value":"ls"},{"value":"cd"}]} {"options":[{"value":"rm","recommendation_order":3},{"value":"ls","recommendation_order":1},{"value":"cd","recommendation_order":2}]} {"options":[{"val''
     = ([\<lparr>Value = ''ls'', Description = [], RecommendationOrder = 1\<rparr>,
         \<lparr>Value = ''cd'', Description = [], RecommendationOrder = 2\<rparr>,
         \<lparr>Value = ''rm'', Description = [], RecommendationOrder = 3\<rparr>], None)
   \<and> candidates ''{"options":[{"value":"rm"},{"value":"ls"},{"value":"cd"}]}''
     = [] @ ''{"options":[{"value":"rm"},{"value":"ls"},{"value":"cd"}]}'' # []
   \<and> decodesToOptions rankDecoder ''{"options":[{"value":"rm"},{"value":"ls"},{"value":"cd"}]}''
   \<and> Options (snd (rankDecoder ''{"options":[{"value":"rm"},{"value":"ls"},{"value":"cd"}]}''))
     = [\<lparr>Value = ''rm'', Description = [], RecommendationOrder = 0\<rparr>,
        \<lparr>Value = ''ls'', Description = [], RecommendationOrder = 0\<rparr>,
        \<lparr>Value = ''cd'', Description = [], RecommendationOrder = 0\<rparr>]
   \<and> parseOptions rankDecoder ''{"options":[{"value":"rm"},{"value":"ls"},{"value":"cd"}]}''
     = ([\<lparr>Value = ''rm'', Description = [], RecommendationOrder = 0\<rparr>,
         \<lparr>Value = ''ls'', Description = [], RecommendationOrder = 0\<rparr>,
         \<lparr>Value = ''cd'', Description = [], RecommendationOrder = 0\<rparr>], None)
   \<and> candidates ''{"options":[{"value":"rm"},{"value":"ls","recommendation_order":5},{"value":"cd"}]}''
     = [] @ ''{"options":[{"value":"rm"},{"value":"ls","recommendation_order":5},{"value":"cd"}]}'' # []
   \<and> decodesToOptions rankDecoder ''{"options":[{"value":"rm"},{"value":"ls","recommendation_order":5},{"value":"cd"}]}''
   \<and> Options (snd (rankDecoder ''{"options":[{"value":"rm"},{"value":"ls","recommendation_order":5},{"value":"cd"}]}''))
     = [\<lparr>Value = ''rm'', Description = [], RecommendationOrder = 0\<rparr>,
        \<lparr>Value = ''ls'', Description = [], RecommendationOrder = 5\<rparr>,
        \<lparr>Value = ''cd'', Description = [], RecommendationOrder = 0\<rparr>]
   \<and> parseOptions rankDecoder ''{"options":[{"value":"rm"},{"value":"ls","recommendation_order":5},{"value":"cd"}]}''
     = ([\<lparr>Value = ''ls'', Description = [], RecommendationOrder = 5\<rparr>,
         \<lparr>Value = ''rm'', Description = [], RecommendationOrder = 0\<rparr>,
         \<lparr>Value = ''cd'', Description = [], RecommendationOrder = 0\<rparr>], None)\<close>
  using
    ranking_stable_sort[where dec=rankDecoder
      and raw=\<open>''{"options":[{"value":"rm"},{"value":"ls"},{"value":"cd"}]} {"options":[{"value":"rm","recommendation_order":3},{"value":"ls","recommendation_order":1},{"value":"cd","recommendation_order":2}]} {"options":[{"val''\<close>
      and before=\<open>[''{"options":[{"value":"rm"},{"value":"ls"},{"value":"cd"}]} {"options":[{"value":"rm","recommendation_order":3},{"value":"ls","recommendation_order":1},{"value":"cd","recommendation_order":2}]} {"options":[{"val'']\<close>
      and g=\<open>''{"options":[{"value":"rm","recommendation_order":3},{"value":"ls","recommendation_order":1},{"value":"cd","recommendation_order":2}]} {"options":[{"val''\<close>
      and after=\<open>[''{"options":[{"val'']\<close>
      and a="\<lparr>Value = ''rm'', Description = [], RecommendationOrder = 3\<rparr>"
      and b="\<lparr>Value = ''ls'', Description = [], RecommendationOrder = 1\<rparr>"
      and c="\<lparr>Value = ''cd'', Description = [], RecommendationOrder = 2\<rparr>"
      and opts="[\<lparr>Value = ''ls'', Description = [], RecommendationOrder = 1\<rparr>,
        \<lparr>Value = ''cd'', Description = [], RecommendationOrder = 2\<rparr>,
        \<lparr>Value = ''rm'', Description = [], RecommendationOrder = 3\<rparr>]"]
    ranking_stable_sort[where dec=rankDecoder and before="[]" and after="[]"
      and raw=\<open>''{"options":[{"value":"rm"},{"value":"ls"},{"value":"cd"}]}''\<close>
      and g=\<open>''{"options":[{"value":"rm"},{"value":"ls"},{"value":"cd"}]}''\<close>
      and a="\<lparr>Value = ''rm'', Description = [], RecommendationOrder = 0\<rparr>"
      and b="\<lparr>Value = ''ls'', Description = [], RecommendationOrder = 0\<rparr>"
      and c="\<lparr>Value = ''cd'', Description = [], RecommendationOrder = 0\<rparr>"
      and opts="[\<lparr>Value = ''rm'', Description = [], RecommendationOrder = 0\<rparr>,
        \<lparr>Value = ''ls'', Description = [], RecommendationOrder = 0\<rparr>,
        \<lparr>Value = ''cd'', Description = [], RecommendationOrder = 0\<rparr>]"]
    ranking_stable_sort[where dec=rankDecoder and before="[]" and after="[]"
      and raw=\<open>''{"options":[{"value":"rm"},{"value":"ls","recommendation_order":5},{"value":"cd"}]}''\<close>
      and g=\<open>''{"options":[{"value":"rm"},{"value":"ls","recommendation_order":5},{"value":"cd"}]}''\<close>
      and a="\<lparr>Value = ''rm'', Description = [], RecommendationOrder = 0\<rparr>"
      and b="\<lparr>Value = ''ls'', Description = [], RecommendationOrder = 5\<rparr>"
      and c="\<lparr>Value = ''cd'', Description = [], RecommendationOrder = 0\<rparr>"
      and opts="[\<lparr>Value = ''ls'', Description = [], RecommendationOrder = 5\<rparr>,
        \<lparr>Value = ''rm'', Description = [], RecommendationOrder = 0\<rparr>,
        \<lparr>Value = ''cd'', Description = [], RecommendationOrder = 0\<rparr>]"]
  by (simp add: marker_def rankDecoder_def decodesToOptions_def)


section \<open>\<open>cleanText\<close>\<close>

lemma enc_not_Nil: "e \<in> set spaceEncodings \<Longrightarrow> e \<noteq> []"
  by (auto simp: spaceEncodings_def)

lemma enc_blank: "e \<in> set spaceEncodings \<Longrightarrow> CHR 0x20 \<in> set e \<Longrightarrow> e = [CHR 0x20]"
  by (auto simp: spaceEncodings_def)

lemma spaceWidth_0_iff: "spaceWidth s = 0 \<longleftrightarrow> (\<forall>e\<in>set spaceEncodings. \<not> prefix e s)"
proof
  assume a: "spaceWidth s = 0"
  show "\<forall>e\<in>set spaceEncodings. \<not> prefix e s"
  proof (cases "find (\<lambda>e. prefix e s) spaceEncodings")
    case None
    then show ?thesis by (simp add: find_None_iff)
  next
    case (Some e)
    then have "e \<in> set spaceEncodings" by (auto simp: find_Some_iff)
    with a Some show ?thesis by (simp add: spaceWidth_def enc_not_Nil)
  qed
next
  assume "\<forall>e\<in>set spaceEncodings. \<not> prefix e s"
  then have "find (\<lambda>e. prefix e s) spaceEncodings = None" by (simp add: find_None_iff)
  then show "spaceWidth s = 0" by (simp add: spaceWidth_def)
qed

lemma spaceWidthEnd_0_iff: "spaceWidthEnd s = 0 \<longleftrightarrow> (\<forall>e\<in>set spaceEncodings. \<not> suffix e s)"
proof
  assume a: "spaceWidthEnd s = 0"
  show "\<forall>e\<in>set spaceEncodings. \<not> suffix e s"
  proof (cases "find (\<lambda>e. suffix e s) spaceEncodings")
    case None
    then show ?thesis by (simp add: find_None_iff)
  next
    case (Some e)
    then have "e \<in> set spaceEncodings" by (auto simp: find_Some_iff)
    with a Some show ?thesis by (simp add: spaceWidthEnd_def enc_not_Nil)
  qed
next
  assume "\<forall>e\<in>set spaceEncodings. \<not> suffix e s"
  then have "find (\<lambda>e. suffix e s) spaceEncodings = None" by (simp add: find_None_iff)
  then show "spaceWidthEnd s = 0" by (simp add: spaceWidthEnd_def)
qed

lemma spaceWidth_blank: "spaceWidth (CHR 0x20 # rest) = 1"
  by (simp add: spaceWidth_def spaceEncodings_def)

lemma noSpace_Cons: "noSpace (c # w) \<Longrightarrow> noSpace w"
  unfolding noSpace_def
proof (intro allI impI)
  fix i assume a: "\<forall>i<length (c # w). spaceWidth (drop i (c # w)) = 0" and "i < length w"
  then have "spaceWidth (drop (Suc i) (c # w)) = 0" by (metis Suc_less_eq length_Cons)
  then show "spaceWidth (drop i w) = 0" by simp
qed

lemma noSpace_then_blank:
  assumes "noSpace w" "w \<noteq> []" "rest = [] \<or> hd rest = CHR 0x20"
  shows "spaceWidth (w @ rest) = 0"
proof -
  have "\<not> prefix e (w @ rest)" if e: "e \<in> set spaceEncodings" for e
  proof
    assume p: "prefix e (w @ rest)"
    from assms(1,2) have "spaceWidth w = 0" unfolding noSpace_def
      by (metis drop0 length_greater_0_conv)
    then have np: "\<not> prefix e w" using e by (simp add: spaceWidth_0_iff)
    from p np obtain v where v: "e = w @ v" "prefix v rest" "v \<noteq> []"
      by (metis append.right_neutral prefix_append prefix_order.eq_iff prefixI)
    then have "rest \<noteq> []" by auto
    with assms(3) have "hd rest = CHR 0x20" by simp
    with v have "hd v = CHR 0x20"
      by (metis \<open>rest \<noteq> []\<close> hd_append2 prefix_def)
    with v have "CHR 0x20 \<in> set e" by (metis hd_in_set in_set_conv_decomp list.set_intros(1) set_append UnCI)
    then have "e = [CHR 0x20]" using e by (rule enc_blank[rotated])
    with v assms(2) show False by (cases w) auto
  qed
  then show ?thesis by (simp add: spaceWidth_0_iff)
qed

lemma fieldsFrom_word:
  "noSpace w \<Longrightarrow> rest = [] \<or> hd rest = CHR 0x20 \<Longrightarrow>
   fieldsFrom cur (w @ rest) = fieldsFrom (cur @ w) rest"
proof (induction w arbitrary: cur)
  case Nil
  then show ?case by simp
next
  case (Cons c w)
  have z: "spaceWidth ((c # w) @ rest) = 0"
    by (rule noSpace_then_blank) (use Cons.prems in simp_all)
  have "fieldsFrom cur ((c # w) @ rest) = fieldsFrom (cur @ [c]) (w @ rest)"
    using z by (subst fieldsFrom.simps) simp
  also have "\<dots> = fieldsFrom ((cur @ [c]) @ w) rest"
    by (rule Cons.IH) (use Cons.prems noSpace_Cons in blast)+
  finally show ?case by simp
qed

lemma fieldsFrom_blank:
  "fieldsFrom cur (CHR 0x20 # rest) = (if cur = [] then [] else [cur]) @ fieldsFrom [] rest"
  by (subst fieldsFrom.simps) (simp add: spaceWidth_blank)

lemma Fields_Join:
  "\<forall>w\<in>set ws. w \<noteq> [] \<and> noSpace w \<Longrightarrow> fieldsFrom [] (Join ws '' '') = ws"
proof (induction ws "'' ''" rule: Join.induct)
  case 1
  then show ?case by (simp add: fieldsFrom.simps)
next
  case (2 w)
  then have "fieldsFrom [] (w @ []) = fieldsFrom ([] @ w) []"
    by (intro fieldsFrom_word) simp_all
  with 2 show ?case by (simp add: fieldsFrom.simps[of _ "[]"])
next
  case (3 w v ws)
  have "fieldsFrom [] (w @ (CHR 0x20 # Join (v # ws) '' '')) = fieldsFrom ([] @ w) (CHR 0x20 # Join (v # ws) '' '')"
    by (intro fieldsFrom_word) (use 3 in simp_all)
  also have "\<dots> = [w] @ fieldsFrom [] (Join (v # ws) '' '')"
    using 3 by (simp add: fieldsFrom_blank)
  also have "\<dots> = w # v # ws" using 3 by simp
  finally show ?case by simp
qed

lemma fieldsFrom_words:
  "\<forall>i<length cur. spaceWidth (drop i cur @ s) = 0 \<Longrightarrow>
   \<forall>w\<in>set (fieldsFrom cur s). w \<noteq> [] \<and> noSpace w"
proof (induction cur s rule: fieldsFrom.induct)
  case (1 cur s)
  have cur_ok: "noSpace cur"
    unfolding noSpace_def
  proof (intro allI impI)
    fix i assume "i < length cur"
    with "1.prems" have "spaceWidth (drop i cur @ s) = 0" by simp
    then show "spaceWidth (drop i cur) = 0"
      by (auto simp: spaceWidth_0_iff)
  qed
  show ?case
  proof (cases "s = []")
    case True
    then show ?thesis using cur_ok by (subst fieldsFrom.simps) simp
  next
    case False
    show ?thesis
    proof (cases "spaceWidth s = 0")
      case True
      have "\<forall>i<length (cur @ [hd s]). spaceWidth (drop i (cur @ [hd s]) @ tl s) = 0"
      proof (intro allI impI)
        fix i assume "i < length (cur @ [hd s])"
        then consider "i < length cur" | "i = length cur" by force
        then show "spaceWidth (drop i (cur @ [hd s]) @ tl s) = 0"
        proof cases
          case 1
          then show ?thesis using "1.prems" False by simp
        next
          case 2
          then show ?thesis using True False by simp
        qed
      qed
      then have "\<forall>w\<in>set (fieldsFrom (cur @ [hd s]) (tl s)). w \<noteq> [] \<and> noSpace w"
        by (rule "1.IH"(1)[OF False True])
      then show ?thesis using False True by (subst fieldsFrom.simps) simp
    next
      case nz: False
      have "\<forall>w\<in>set (fieldsFrom [] (drop (spaceWidth s) s)). w \<noteq> [] \<and> noSpace w"
        by (rule "1.IH"(2)[OF False nz]) simp
      then show ?thesis using False nz cur_ok by (subst fieldsFrom.simps) auto
    qed
  qed
qed

lemma Fields_words: "\<forall>w\<in>set (Fields s). w \<noteq> [] \<and> noSpace w"
  unfolding Fields_def by (rule fieldsFrom_words) simp

lemma noSpace_no_newline: "noSpace w \<Longrightarrow> CHR 0x0A \<notin> set w"
proof
  assume n: "noSpace w" and "CHR 0x0A \<in> set w"
  then obtain i where i: "i < length w" "w ! i = CHR 0x0A" by (auto simp: in_set_conv_nth)
  then have "prefix [CHR 0x0A] (drop i w)"
    by (metis Cons_nth_drop_Suc Cons_prefix_Cons Nil_prefix)
  moreover have "[CHR 0x0A] \<in> set spaceEncodings" by (simp add: spaceEncodings_def)
  ultimately have "spaceWidth (drop i w) \<noteq> 0" by (auto simp: spaceWidth_0_iff)
  with n i show False by (simp add: noSpace_def)
qed

lemma set_Join: "set (Join ws sep) \<subseteq> \<Union> (set ` set ws) \<union> set sep"
  by (induction ws sep rule: Join.induct) auto

lemma ReplaceAll_none: "old \<notin> set s \<Longrightarrow> ReplaceAll s old new = s"
  by (induction s) auto

lemma Join_shape_front:
  "ws \<noteq> [] \<Longrightarrow> \<exists>rest. Join ws '' '' = hd ws @ rest \<and> (rest = [] \<or> hd rest = CHR 0x20)"
  by (induction ws "'' ''" rule: Join.induct) auto

lemma Join_shape_back:
  "ws \<noteq> [] \<Longrightarrow> \<exists>pre. Join ws '' '' = pre @ last ws \<and> (pre = [] \<or> last pre = CHR 0x20)"
proof (induction ws "'' ''" rule: Join.induct)
  case 1
  then show ?case by simp
next
  case (2 w)
  then show ?case by simp
next
  case (3 w v ws)
  then obtain pre where pre: "Join (v # ws) '' '' = pre @ last (v # ws)" "pre = [] \<or> last pre = CHR 0x20"
    by auto
  have "Join (w # v # ws) '' '' = (w @ '' '' @ pre) @ last (w # v # ws)"
    using pre by simp
  moreover have "last (w @ '' '' @ pre) = CHR 0x20" using pre(2) by auto
  ultimately show ?case by blast
qed

lemma noSpace_suffix:
  assumes "noSpace w" "w \<noteq> []" "pre = [] \<or> last pre = CHR 0x20"
  shows "spaceWidthEnd (pre @ w) = 0"
proof -
  have "\<not> suffix e (pre @ w)" if e: "e \<in> set spaceEncodings" for e
  proof
    assume s: "suffix e (pre @ w)"
    have ne: "e \<noteq> []" using e by (rule enc_not_Nil)
    have ns: "\<not> suffix e w"
    proof
      assume "suffix e w"
      then obtain u where u: "w = u @ e" by (auto simp: suffix_def)
      with ne have "length u < length w" by simp
      moreover have "drop (length u) w = e" using u by simp
      ultimately have "spaceWidth e = 0" using assms(1) unfolding noSpace_def by metis
      then show False using e by (auto simp: spaceWidth_0_iff)
    qed
    from s ns obtain v where v: "e = v @ w" "suffix v pre" "v \<noteq> []"
      by (metis append_Nil suffix_append suffix_order.eq_iff suffixI)
    then have "pre \<noteq> []" by auto
    with assms(3) have "last pre = CHR 0x20" by simp
    with v have "last v = CHR 0x20"
      by (metis \<open>pre \<noteq> []\<close> last_appendR suffix_def)
    with v have "CHR 0x20 \<in> set e" by (metis last_in_set set_append UnCI)
    then have "e = [CHR 0x20]" using e by (rule enc_blank[rotated])
    with v assms(2) show False by (cases v) auto
  qed
  then show ?thesis by (simp add: spaceWidthEnd_0_iff)
qed

lemma spaceWidth_Nil: "spaceWidth [] = 0"
  by (simp add: spaceWidth_0_iff enc_not_Nil)

lemma spaceWidthEnd_Nil: "spaceWidthEnd [] = 0"
  by (simp add: spaceWidthEnd_0_iff enc_not_Nil)

lemma TrimSpace_Join:
  assumes "\<forall>w\<in>set ws. w \<noteq> [] \<and> noSpace w"
  shows "TrimSpace (Join ws '' '') = Join ws '' ''"
proof (cases "ws = []")
  case True
  then show ?thesis
    by (simp add: TrimSpace_def trimLeft.simps[of "[]"] trimRight.simps[of "[]"] spaceWidth_Nil spaceWidthEnd_Nil)
next
  case False
  then obtain rest where r: "Join ws '' '' = hd ws @ rest" "rest = [] \<or> hd rest = CHR 0x20"
    using Join_shape_front by blast
  from False obtain pre where p: "Join ws '' '' = pre @ last ws" "pre = [] \<or> last pre = CHR 0x20"
    using Join_shape_back by blast
  have h: "hd ws \<noteq> [] \<and> noSpace (hd ws)" and l: "last ws \<noteq> [] \<and> noSpace (last ws)"
    using assms False by simp_all
  have a: "spaceWidth (Join ws '' '') = 0"
    unfolding r(1) by (rule noSpace_then_blank) (use h r(2) in simp_all)
  have b: "spaceWidthEnd (Join ws '' '') = 0"
    unfolding p(1) by (rule noSpace_suffix) (use l p(2) in simp_all)
  show ?thesis using a b
    by (simp add: TrimSpace_def trimLeft.simps[of "Join ws '' ''"] trimRight.simps[of "Join ws '' ''"])
qed

lemma cleanText_cleanText: "cleanText (cleanText s) = cleanText s"
proof -
  define ws where "ws = Fields (ReplaceAll (TrimSpace s) (CHR 0x0A) '' '')"
  have ok: "\<forall>w\<in>set ws. w \<noteq> [] \<and> noSpace w" unfolding ws_def by (rule Fields_words)
  have c: "cleanText s = Join ws '' ''" by (simp add: cleanText_def ws_def)
  have t: "TrimSpace (Join ws '' '') = Join ws '' ''" by (rule TrimSpace_Join[OF ok])
  have "CHR 0x0A \<notin> set (Join ws '' '')"
  proof
    assume "CHR 0x0A \<in> set (Join ws '' '')"
    with set_Join[of ws "'' ''"] have "CHR 0x0A \<in> \<Union> (set ` set ws) \<union> set '' ''" by blast
    then obtain w where "w \<in> set ws" "CHR 0x0A \<in> set w" by auto
    with ok noSpace_no_newline show False by blast
  qed
  then have r: "ReplaceAll (Join ws '' '') (CHR 0x0A) '' '' = Join ws '' ''"
    by (rule ReplaceAll_none)
  have f: "Fields (Join ws '' '') = ws" unfolding Fields_def by (rule Fields_Join[OF ok])
  show ?thesis unfolding c by (simp add: cleanText_def t r f)
qed



section \<open>The handlers\<close>

lemma parseOptions_ok: "parseOptions dec raw = (opts, None) \<Longrightarrow> opts \<noteq> []"
  by (auto simp: parseOptions_def Let_def split: if_splits)

lemma parseOptions_fail: "parseOptions dec raw = (opts, Some t) \<Longrightarrow> opts = [] \<and> t = parseError"
  by (auto simp: parseOptions_def Let_def split: if_splits)

lemma handleResponse_err:
  "err r = Some t \<Longrightarrow>
   handleResponse e m r =
     Inr (m\<lparr>running := False, mode := modeViewing,
            rawOutput := (if TrimSpace (msgOutput r) = [] then t else TrimSpace (msgOutput r)),
            lastParseError := None,
            status := ''error from '' @ cli r @ '' '' @ bullet @ '' '' @ helpViewing,
            options := [], selected := 0\<rparr>, NoCmd)"
  by (simp add: handleResponse_def Let_def)

lemma handleResponse_parse_fail:
  "err r = None \<Longrightarrow> parseOptions (decodeJSON e) (TrimSpace (msgOutput r)) = (x, Some t) \<Longrightarrow>
   handleResponse e m r =
     Inr (m\<lparr>running := False, mode := modeViewing,
            rawOutput := TrimSpace (msgOutput r),
            lastParseError := Some t,
            status := ''parse error: '' @ t @ '' '' @ bullet @ '' '' @ helpViewing,
            options := [], selected := 0\<rparr>, NoCmd)"
  by (simp add: handleResponse_def Let_def)

lemma handleResponse_ok:
  "err r = None \<Longrightarrow> parseOptions (decodeJSON e) (TrimSpace (msgOutput r)) = (opts, None) \<Longrightarrow>
   handleResponse e m r =
     (if autoExecute m then
        Inr (m\<lparr>running := False, mode := modeViewing,
               rawOutput := TrimSpace (msgOutput r), lastParseError := None,
               options := opts, selected := 0,
               status := ''running: '' @ cleanText (Value (opts ! 0)),
               autoExecute := False\<rparr>,
             ExecWithFeedback (Value (opts ! 0)) True)
      else
        Inr (m\<lparr>running := False, mode := modeViewing,
               rawOutput := TrimSpace (msgOutput r), lastParseError := None,
               options := opts, selected := 0, status := helpViewing\<rparr>, NoCmd))"
  using parseOptions_ok[of "decodeJSON e" "TrimSpace (msgOutput r)" opts]
  by (simp add: handleResponse_def Let_def sliceAt_def)

lemma handleResponse_cases:
  obtains (failed) t where "err r = Some t"
  | (unparsed) x t where "err r = None" "parseOptions (decodeJSON e) (TrimSpace (msgOutput r)) = (x, Some t)"
  | (parsed) opts where "err r = None" "parseOptions (decodeJSON e) (TrimSpace (msgOutput r)) = (opts, None)"
proof (cases "err r")
  case None
  obtain x y where xy: "parseOptions (decodeJSON e) (TrimSpace (msgOutput r)) = (x, y)"
    by (cases "parseOptions (decodeJSON e) (TrimSpace (msgOutput r))")
  show ?thesis
  proof (cases y)
    case n: None
    with None xy show ?thesis by (auto intro: parsed)
  next
    case (Some t)
    with None xy show ?thesis by (auto intro: unparsed)
  qed
next
  case (Some t)
  then show ?thesis by (rule failed)
qed

text \<open>
  C3, as the code has it. \<open>handleResponse\<close> always returns, in viewing mode. At most one
  of three things holds afterwards: the options are non-empty, the parse error is set,
  the raw output is the text of the runner's error. Exactly one does when the runner
  reported no error (options or parse error) or an error with blank output (the error
  text becomes the raw output). When the runner reports an error together with output,
  the raw output is that output, trimmed, the options are empty and no parse error is
  set.
\<close>

theorem handleResponse_outcome:
  "(\<exists>m' c. handleResponse e m r = Inr (m', c))
   \<and> (\<forall>m' c. handleResponse e m r = Inr (m', c) \<longrightarrow>
        mode m' = modeViewing \<and> \<not> running m'
        \<and> \<not> (options m' \<noteq> [] \<and> lastParseError m' \<noteq> None)
        \<and> \<not> (options m' \<noteq> [] \<and> err r \<noteq> None)
        \<and> \<not> (lastParseError m' \<noteq> None \<and> err r \<noteq> None)
        \<and> (err r = None \<longrightarrow>
              rawOutput m' = TrimSpace (msgOutput r)
              \<and> (options m' \<noteq> [] \<or> lastParseError m' \<noteq> None))
        \<and> (\<forall>t. err r = Some t \<and> TrimSpace (msgOutput r) = [] \<longrightarrow>
              rawOutput m' = t \<and> options m' = [] \<and> lastParseError m' = None)
        \<and> (\<forall>t. err r = Some t \<and> TrimSpace (msgOutput r) \<noteq> [] \<longrightarrow>
              rawOutput m' = TrimSpace (msgOutput r) \<and> options m' = []
              \<and> lastParseError m' = None))"
proof (cases rule: handleResponse_cases[where r=r and e=e])
  case (failed t)
  show ?thesis using failed by (simp add: handleResponse_err[OF failed])
next
  case (unparsed x t)
  show ?thesis using unparsed(1) by (simp add: handleResponse_parse_fail[OF unparsed])
next
  case (parsed opts)
  have "opts \<noteq> []" using parsed(2) by (rule parseOptions_ok)
  then show ?thesis using parsed(1) by (auto simp: handleResponse_ok[OF parsed])
qed

theorem handleResponse_outcome_witness:
  "handleResponse sampleEnv (sampleModel\<lparr>mode := modeRunning, running := True\<rparr>)
     \<lparr>msgOutput = ''  '', err = Some ''exit status 1'', cli = ''codex''\<rparr>
   = Inr (sampleModel\<lparr>mode := modeViewing, running := False, rawOutput := ''exit status 1'',
            status := ''error from codex '' @ bullet @ '' '' @ helpViewing\<rparr>, NoCmd)
   \<and> TrimSpace ''  '' = []"
proof -
  have t: "TrimSpace ''  '' = []"
    by code_simp
  show ?thesis
    using t handleResponse_outcome[of sampleEnv "sampleModel\<lparr>mode := modeRunning, running := True\<rparr>"
        "\<lparr>msgOutput = ''  '', err = Some ''exit status 1'', cli = ''codex''\<rparr>"]
    by (simp add: handleResponse_err sampleModel_def)
qed

theorem handleResponse_exactly_one_counterexample:
  "handleResponse sampleEnv (sampleModel\<lparr>mode := modeRunning, running := True\<rparr>)
     \<lparr>msgOutput = ''boom'', err = Some ''exit status 1'', cli = ''codex''\<rparr>
   = Inr (sampleModel\<lparr>mode := modeViewing, running := False, rawOutput := ''boom'',
            status := ''error from codex '' @ bullet @ '' '' @ helpViewing\<rparr>, NoCmd)
   \<and> options (sampleModel\<lparr>mode := modeViewing, running := False, rawOutput := ''boom'',
            status := ''error from codex '' @ bullet @ '' '' @ helpViewing\<rparr>) = []
   \<and> lastParseError (sampleModel\<lparr>mode := modeViewing, running := False, rawOutput := ''boom'',
            status := ''error from codex '' @ bullet @ '' '' @ helpViewing\<rparr>) = None
   \<and> rawOutput (sampleModel\<lparr>mode := modeViewing, running := False, rawOutput := ''boom'',
            status := ''error from codex '' @ bullet @ '' '' @ helpViewing\<rparr>) \<noteq> ''exit status 1''"
proof -
  have t: "TrimSpace ''boom'' = ''boom''"
    by code_simp
  show ?thesis by (simp add: handleResponse_err t sampleModel_def)
qed


lemma resizeComponents_fields [simp]:
  "cliOptions (resizeComponents e m) = cliOptions m"
  "cliIndex (resizeComponents e m) = cliIndex m"
  "mode (resizeComponents e m) = mode m"
  "running (resizeComponents e m) = running m"
  "rawOutput (resizeComponents e m) = rawOutput m"
  "options (resizeComponents e m) = options m"
  "selected (resizeComponents e m) = selected m"
  "lastParseError (resizeComponents e m) = lastParseError m"
  "autoExecute (resizeComponents e m) = autoExecute m"
  by (simp_all add: resizeComponents_def)

lemma adjustTextareaHeight_fields [simp]:
  "cliOptions (adjustTextareaHeight e m) = cliOptions m"
  "cliIndex (adjustTextareaHeight e m) = cliIndex m"
  "mode (adjustTextareaHeight e m) = mode m"
  "running (adjustTextareaHeight e m) = running m"
  "rawOutput (adjustTextareaHeight e m) = rawOutput m"
  "options (adjustTextareaHeight e m) = options m"
  "selected (adjustTextareaHeight e m) = selected m"
  "lastParseError (adjustTextareaHeight e m) = lastParseError m"
  "autoExecute (adjustTextareaHeight e m) = autoExecute m"
  by (simp_all add: adjustTextareaHeight_def Let_def)

lemma ex_triple: "\<exists>a b c. x = (a, b, c)"
  by (cases x) auto

lemma goRem_nonneg: "0 \<le> a \<Longrightarrow> 0 < b \<Longrightarrow> goRem a b = a mod b"
  by (cases "a = 0") (simp_all add: goRem_def)

text \<open>The fields a handler of key messages in input mode can change.\<close>

lemma submitPrompt_result:
  "submitPrompt e m = Inr (m', c, w) \<Longrightarrow>
   cliOptions m' = cliOptions m \<and> cliIndex m' = cliIndex m \<and> autoExecute m' = autoExecute m
   \<and> w = []
   \<and> ((mode m' = mode m \<and> options m' = options m \<and> selected m' = selected m \<and> c = NoCmd)
      \<or> (mode m' = modeRunning \<and> options m' = [] \<and> selected m' = 0
          \<and> 0 \<le> cliIndex m \<and> cliIndex m < int (length (cliOptions m))
          \<and> c = Batch [RunPrompt (name (cliOptions m ! nat (cliIndex m)))
                         (buildPrompt (TrimRightNewlines (inputValue e (input m)))), TickCmd]))"
  by (auto simp: submitPrompt_def Let_def currentCLI_def sliceAt_def split: if_splits sum.splits)

lemma submitPrompt_no_panic:
  "0 \<le> cliIndex m \<Longrightarrow> cliIndex m < int (length (cliOptions m)) \<Longrightarrow>
   \<exists>res. submitPrompt e m = Inr res"
  by (simp add: submitPrompt_def Let_def currentCLI_def sliceAt_def)

lemma nextCLI_result:
  "0 \<le> cliIndex m \<Longrightarrow> cliIndex m < int (length (cliOptions m)) \<Longrightarrow>
   nextCLI m = Inr (m\<lparr>cliIndex := (cliIndex m + 1) mod int (length (cliOptions m)),
                      status := ''using ''
                        @ name (cliOptions m ! nat ((cliIndex m + 1) mod int (length (cliOptions m))))
                        @ '' '' @ bullet @ '' '' @ helpInput\<rparr>)"
proof -
  assume a: "0 \<le> cliIndex m" "cliIndex m < int (length (cliOptions m))"
  let ?n = "int (length (cliOptions m))"
  have ne: "cliOptions m \<noteq> []" using a by (cases "cliOptions m") auto
  have g: "goRem (cliIndex m + 1) ?n = (cliIndex m + 1) mod ?n"
    using a ne by (intro goRem_nonneg) simp_all
  have "0 \<le> (cliIndex m + 1) mod ?n" "(cliIndex m + 1) mod ?n < ?n" using a ne by simp_all
  then show ?thesis using a g ne
    by (simp add: nextCLI_def Let_def currentCLI_def sliceAt_def)
qed

lemma prevCLI_result:
  "0 \<le> cliIndex m \<Longrightarrow> cliIndex m < int (length (cliOptions m)) \<Longrightarrow>
   prevCLI m = Inr (m\<lparr>cliIndex := (cliIndex m - 1) mod int (length (cliOptions m)),
                      status := ''using ''
                        @ name (cliOptions m ! nat ((cliIndex m - 1) mod int (length (cliOptions m))))
                        @ '' '' @ bullet @ '' '' @ helpInput\<rparr>)"
proof -
  assume a: "0 \<le> cliIndex m" "cliIndex m < int (length (cliOptions m))"
  let ?n = "int (length (cliOptions m))"
  have ne: "cliOptions m \<noteq> []" using a by (cases "cliOptions m") auto
  have "goRem (cliIndex m - 1 + ?n) ?n = (cliIndex m - 1 + ?n) mod ?n"
    using a ne by (intro goRem_nonneg) simp_all
  also have "\<dots> = (cliIndex m - 1) mod ?n" by simp
  finally have g: "goRem (cliIndex m - 1 + ?n) ?n = (cliIndex m - 1) mod ?n" .
  have "0 \<le> (cliIndex m - 1) mod ?n" "(cliIndex m - 1) mod ?n < ?n" using a ne by simp_all
  then show ?thesis using a g ne
    by (simp add: prevCLI_def Let_def currentCLI_def sliceAt_def)
qed

lemma defaultIndex_range:
  "0 \<le> i \<Longrightarrow> opts \<noteq> [] \<Longrightarrow>
   0 \<le> defaultIndex equalFold d opts i \<and> defaultIndex equalFold d opts i < i + int (length opts)"
proof (induction opts arbitrary: i)
  case Nil
  then show ?case by simp
next
  case (Cons opt opts)
  show ?case
  proof (cases opts)
    case Nil
    with Cons.prems show ?thesis by simp
  next
    case (Cons o2 os)
    with Cons.IH[of "i + 1"] Cons.prems show ?thesis by auto
  qed
qed

lemma newModel_wellFormed:
  "newModel schemaErr cliAvailable equalFold input0 defaultCLI = Inr m \<Longrightarrow> wellFormed m"
proof -
  assume a: "newModel schemaErr cliAvailable equalFold input0 defaultCLI = Inr m"
  let ?opts = "filter (\<lambda>opt. cliAvailable (name opt)) allCLIOptions"
  from a have ne: "?opts \<noteq> []"
    by (auto simp: newModel_def Let_def split: option.splits if_splits)
  from a have "cliOptions m = ?opts" "cliIndex m = defaultIndex equalFold defaultCLI ?opts 0"
    "options m = []"
    by (auto simp: newModel_def Let_def split: option.splits if_splits)
  then show ?thesis
    using defaultIndex_range[of 0 ?opts equalFold defaultCLI] ne
    by (simp add: wellFormed_def)
qed

lemma moveSelection_fields [simp]:
  "cliOptions (moveSelection m d) = cliOptions m"
  "cliIndex (moveSelection m d) = cliIndex m"
  "mode (moveSelection m d) = mode m"
  "options (moveSelection m d) = options m"
  "autoExecute (moveSelection m d) = autoExecute m"
  by (simp_all add: moveSelection_def)

lemma moveSelection_range:
  "options m \<noteq> [] \<Longrightarrow> 0 \<le> selected m \<Longrightarrow> - 1 \<le> d \<Longrightarrow>
   selected (moveSelection m d) = (selected m + d) mod int (length (options m))
   \<and> 0 \<le> selected (moveSelection m d) \<and> selected (moveSelection m d) < int (length (options m))"
proof -
  assume a: "options m \<noteq> []" "0 \<le> selected m" "- 1 \<le> d"
  let ?n = "int (length (options m))"
  have n: "0 < ?n" using a by simp
  have "0 \<le> selected m + d + ?n" using a n by linarith
  then have "goRem (selected m + d + ?n) ?n = (selected m + d + ?n) mod ?n"
    using n by (intro goRem_nonneg)
  also have "\<dots> = (selected m + d) mod ?n" by simp
  finally show ?thesis using a n by (simp add: moveSelection_def)
qed

lemma selectedValue_no_panic: "\<exists>v. selectedValue m = Inr v"
  by (simp add: selectedValue_def sliceAt_def)

lemma selectedValue_in_range:
  "options m \<noteq> [] \<Longrightarrow> 0 \<le> selected m \<Longrightarrow> selected m < int (length (options m)) \<Longrightarrow>
   selectedValue m = Inr (Value (options m ! nat (selected m)))"
  by (simp add: selectedValue_def sliceAt_def)

text \<open>The branches of the key handlers, each with what it returns.\<close>

lemma handleViewingKeys_cases [case_names quit reset run copy move none]:
  obtains
    (quit) "handleViewingKeys e m k = Inr (m, Quit, [])"
  | (reset) "isNewline k"
      "handleViewingKeys e m k =
         Inr (m\<lparr>mode := modeInput, running := False,
                input := inputFocus e (inputSetValue e (input m) []),
                status := helpInput, options := [], lastParseError := None, rawOutput := [],
                autoExecute := False\<rparr>, NoCmd, [])"
  | (run) st where "isCtrlR k"
      "handleViewingKeys e m k = Inr (m\<lparr>status := st\<rparr>, NoCmd, [])
       \<or> (actionValue m \<noteq> []
          \<and> handleViewingKeys e m k =
              Inr (m\<lparr>status := ''running: '' @ cleanText (actionValue m)\<rparr>,
                   ExecWithFeedback (actionValue m) True, []))"
  | (copy) st c where "\<not> isCtrlR k"
      "handleViewingKeys e m k = Inr (m\<lparr>status := st\<rparr>, NoCmd, [])
       \<or> (c \<in> {NoCmd, Quit} \<and> actionValue m \<noteq> []
          \<and> handleViewingKeys e m k = Inr (m\<lparr>status := st\<rparr>, c, [actionValue m]))"
  | (move) d where "\<not> isCtrlR k" "\<not> isNewline k" "d = - 1 \<or> d = 1"
      "handleViewingKeys e m k = Inr (moveSelection m d, NoCmd, [])"
  | (none) "\<not> isCtrlR k" "\<not> isNewline k" "handleViewingKeys e m k = Inr (m, NoCmd, [])"
proof -
  obtain v where v: "selectedValue m = Inr v" using selectedValue_no_panic by blast
  then have av: "actionValue m = (if v = [] then rawOutput m else v)"
    by (simp add: actionValue_def)
  consider (a) "Type k = KeyCtrlC \<or> keyString k = ''esc'' \<or> keyString k = ''q''"
    | (b) "\<not> (Type k = KeyCtrlC \<or> keyString k = ''esc'' \<or> keyString k = ''q'')" "isNewline k"
    | (c) "\<not> (Type k = KeyCtrlC \<or> keyString k = ''esc'' \<or> keyString k = ''q'')" "\<not> isNewline k"
          "isCtrlR k"
    | (d) "\<not> (Type k = KeyCtrlC \<or> keyString k = ''esc'' \<or> keyString k = ''q'')" "\<not> isNewline k"
          "\<not> isCtrlR k" "Type k = KeyEnter"
    | (f) "\<not> (Type k = KeyCtrlC \<or> keyString k = ''esc'' \<or> keyString k = ''q'')" "\<not> isNewline k"
          "\<not> isCtrlR k" "Type k \<noteq> KeyEnter" "keyString k = ''up'' \<or> keyString k = ''k''"
    | (g) "\<not> (Type k = KeyCtrlC \<or> keyString k = ''esc'' \<or> keyString k = ''q'')" "\<not> isNewline k"
          "\<not> isCtrlR k" "Type k \<noteq> KeyEnter" "\<not> (keyString k = ''up'' \<or> keyString k = ''k'')"
          "keyString k = ''down'' \<or> keyString k = ''j''"
    | (h) "\<not> (Type k = KeyCtrlC \<or> keyString k = ''esc'' \<or> keyString k = ''q'')" "\<not> isNewline k"
          "\<not> isCtrlR k" "Type k \<noteq> KeyEnter" "\<not> (keyString k = ''up'' \<or> keyString k = ''k'')"
          "\<not> (keyString k = ''down'' \<or> keyString k = ''j'')"
    by blast
  then show ?thesis
  proof cases
    case a
    then show ?thesis by (intro quit) (simp add: handleViewingKeys_def)
  next
    case b
    then show ?thesis by (intro reset) (simp_all add: handleViewingKeys_def)
  next
    case c
    show ?thesis
    proof (cases "v = [] \<and> rawOutput m = []")
      case True
      with c v show ?thesis
        by (intro run[of "''nothing to run '' @ bullet @ '' '' @ helpViewing"])
           (simp_all add: handleViewingKeys_def)
    next
      case False
      with c v av show ?thesis
        by (intro run[of "[]"]) (auto simp: handleViewingKeys_def Let_def)
    qed
  next
    case d
    show ?thesis
    proof (cases "v = [] \<and> rawOutput m = []")
      case True
      with d v show ?thesis
        by (intro copy[of "''nothing to copy '' @ bullet @ '' '' @ helpViewing" NoCmd])
           (simp_all add: handleViewingKeys_def)
    next
      case False
      show ?thesis
      proof (cases "clipboardWriteAll e (actionValue m)")
        case None
        with False d v av show ?thesis
          by (intro copy[of "checkMark @ '' Copied to clipboard: '' @ actionValue m" Quit])
             (auto simp: handleViewingKeys_def Let_def)
      next
        case (Some werr)
        with False d v av show ?thesis
          by (intro copy[of "crossMark @ '' CLIPBOARD FAILED: '' @ werr @ '' '' @ bullet
                                 @ '' Install xclip/xsel on Linux '' @ bullet @ '' '' @ helpViewing" NoCmd])
             (auto simp: handleViewingKeys_def Let_def)
      qed
    qed
  next
    case f
    then show ?thesis by (intro move[of "- 1"]) (simp_all add: handleViewingKeys_def)
  next
    case g
    then show ?thesis by (intro move[of 1]) (simp_all add: handleViewingKeys_def)
  next
    case h
    then show ?thesis by (intro none) (simp_all add: handleViewingKeys_def)
  qed
qed

lemma submitPrompt_cases [case_names blank dispatch panic]:
  obtains
    (blank) st where "submitPrompt e m = Inr (m\<lparr>status := st\<rparr>, NoCmd, [])"
  | (dispatch) t where
      "0 \<le> cliIndex m" "cliIndex m < int (length (cliOptions m))"
      "submitPrompt e m =
         Inr (m\<lparr>lastPrompt := TrimRightNewlines (inputValue e (input m)), running := True,
                mode := modeRunning, spinnerFrame := 0, status := [], options := [],
                lastParseError := None, rawOutput := [], selected := 0, input := t\<rparr>,
              Batch [RunPrompt (name (cliOptions m ! nat (cliIndex m)))
                       (buildPrompt (TrimRightNewlines (inputValue e (input m)))), TickCmd], [])"
  | (panic) "\<not> (0 \<le> cliIndex m \<and> cliIndex m < int (length (cliOptions m)))"
      "submitPrompt e m = Inl IndexOutOfRange"
proof (cases "TrimSpace (TrimRightNewlines (inputValue e (input m))) = []")
  case True
  then show ?thesis
    by (intro blank[of "''prompt is empty '' @ bullet @ '' '' @ helpInput"])
       (simp add: submitPrompt_def Let_def)
next
  case nb: False
  show ?thesis
  proof (cases "0 \<le> cliIndex m \<and> cliIndex m < int (length (cliOptions m))")
    case False
    with nb show ?thesis
      by (intro panic) (auto simp: submitPrompt_def Let_def currentCLI_def sliceAt_def)
  next
    case True
    let ?m1 = "m\<lparr>lastPrompt := TrimRightNewlines (inputValue e (input m)), running := True,
                mode := modeRunning, spinnerFrame := 0, status := [], options := [],
                lastParseError := None, rawOutput := [], selected := 0\<rparr>"
    have "\<exists>t. resizeComponents e ?m1 = ?m1\<lparr>input := t\<rparr>"
      by (cases "ready m"; cases "width m > 10") (auto simp: resizeComponents_def intro: exI[of _ "input m"])
    then obtain t where t: "resizeComponents e ?m1 = ?m1\<lparr>input := t\<rparr>" by blast
    show ?thesis
      using True nb
      by (intro dispatch[of t]) (simp_all add: submitPrompt_def Let_def currentCLI_def sliceAt_def t)
  qed
qed

lemma adjustTextareaHeight_input: "\<exists>t. adjustTextareaHeight e m = m\<lparr>input := t\<rparr>"
  unfolding adjustTextareaHeight_def Let_def by (rule exI) (rule refl)

lemma updateInput_result: "\<exists>t n. updateInput e m ms = (m\<lparr>input := t\<rparr>, InputCmd n, [])"
proof -
  obtain m1 where m1: "m1 = (case ms of
                  KeyMsg k \<Rightarrow>
                    if Type k = KeyEnter then
                      (let futureLines0 = CountNewlines (inputValue e (input m)) + 2;
                           futureLines1 = (if futureLines0 > 1 then futureLines0 + 1 else futureLines0);
                           futureLines2 = (if futureLines1 > 20 then 20 else futureLines1)
                       in m\<lparr>input := inputSetHeight e (input m) futureLines2\<rparr>)
                    else m
                | _ \<Rightarrow> m)" by blast
  have "\<exists>t. m1 = m\<lparr>input := t\<rparr>"
    unfolding m1 by (cases ms) (auto simp: Let_def intro: exI[of _ "input m"])
  then obtain t1 where t1: "m1 = m\<lparr>input := t1\<rparr>" by blast
  obtain inp n where u: "inputUpdate e (input m1) ms = (inp, n)" by (cases "inputUpdate e (input m1) ms")
  obtain t2 where "adjustTextareaHeight e (m1\<lparr>input := inp\<rparr>) = m1\<lparr>input := inp\<rparr>\<lparr>input := t2\<rparr>"
    using adjustTextareaHeight_input[of e "m1\<lparr>input := inp\<rparr>"] by blast
  then have "updateInput e m ms = (m\<lparr>input := t2\<rparr>, InputCmd n, [])"
    using u t1 m1 by (simp add: updateInput_def Let_def)
  then show ?thesis by blast
qed

lemma handleInputKeys_cases [case_names quit cycleNext cyclePrev newline submitRun submit other]:
  obtains
    (quit) "handleInputKeys e m k = Inr (m, Quit, [])"
  | (cycleNext) "keyString k = ''ctrl+n''" "\<not> (Type k = KeyCtrlC \<or> keyString k = ''esc'')"
      "handleInputKeys e m k = (case nextCLI m of Inl p \<Rightarrow> Inl p | Inr m1 \<Rightarrow> Inr (m1, NoCmd, []))"
  | (cyclePrev) "keyString k = ''ctrl+p''" "\<not> (Type k = KeyCtrlC \<or> keyString k = ''esc'')"
      "handleInputKeys e m k = (case prevCLI m of Inl p \<Rightarrow> Inl p | Inr m1 \<Rightarrow> Inr (m1, NoCmd, []))"
  | (newline) t n where "handleInputKeys e m k = Inr (m\<lparr>input := t\<rparr>, InputCmd n, [])"
  | (submitRun) "isCtrlR k" "handleInputKeys e m k = submitPrompt e (m\<lparr>autoExecute := True\<rparr>)"
  | (submit) "\<not> isCtrlR k" "Type k = KeyEnter \<or> isCtrlEnter k"
      "handleInputKeys e m k = submitPrompt e (m\<lparr>autoExecute := False\<rparr>)"
  | (other) t n where "\<not> isCtrlR k" "handleInputKeys e m k = Inr (m\<lparr>input := t\<rparr>, InputCmd n, [])"
proof -
  consider (a) "Type k = KeyCtrlC \<or> keyString k = ''esc''"
    | (b) "\<not> (Type k = KeyCtrlC \<or> keyString k = ''esc'')" "keyString k = ''ctrl+n''"
    | (c) "\<not> (Type k = KeyCtrlC \<or> keyString k = ''esc'')" "keyString k \<noteq> ''ctrl+n''"
          "keyString k = ''ctrl+p''"
    | (d) "\<not> (Type k = KeyCtrlC \<or> keyString k = ''esc'')" "keyString k \<noteq> ''ctrl+n''"
          "keyString k \<noteq> ''ctrl+p''" "isNewline k"
    | (f) "\<not> (Type k = KeyCtrlC \<or> keyString k = ''esc'')" "keyString k \<noteq> ''ctrl+n''"
          "keyString k \<noteq> ''ctrl+p''" "\<not> isNewline k" "isCtrlR k"
    | (g) "\<not> (Type k = KeyCtrlC \<or> keyString k = ''esc'')" "keyString k \<noteq> ''ctrl+n''"
          "keyString k \<noteq> ''ctrl+p''" "\<not> isNewline k" "\<not> isCtrlR k"
          "Type k = KeyEnter \<or> isCtrlEnter k"
    | (h) "\<not> (Type k = KeyCtrlC \<or> keyString k = ''esc'')" "keyString k \<noteq> ''ctrl+n''"
          "keyString k \<noteq> ''ctrl+p''" "\<not> isNewline k" "\<not> isCtrlR k"
          "\<not> (Type k = KeyEnter \<or> isCtrlEnter k)"
    by blast
  then show ?thesis
  proof cases
    case a
    then show ?thesis by (intro quit) (simp add: handleInputKeys_def)
  next
    case b
    then show ?thesis by (intro cycleNext) (simp_all add: handleInputKeys_def)
  next
    case c
    then show ?thesis by (intro cyclePrev) (simp_all add: handleInputKeys_def)
  next
    case d
    let ?m1 = "if CountNewlines (inputValue e (input m)) + 1 + 1 \<le> 10
               then m\<lparr>input := inputSetHeight e (input m) (CountNewlines (inputValue e (input m)) + 1 + 1)\<rparr>
               else m"
    obtain inp n where u: "inputUpdate e (input ?m1)
        (KeyMsg \<lparr>Type = KeyEnter, Alt = False, keyString = ''enter''\<rparr>) = (inp, n)"
      by (cases "inputUpdate e (input ?m1) (KeyMsg \<lparr>Type = KeyEnter, Alt = False, keyString = ''enter''\<rparr>)")
    have "handleInputKeys e m k = Inr (m\<lparr>input := inp\<rparr>, InputCmd n, [])"
      using d u by (auto simp: handleInputKeys_def Let_def split: if_splits)
    then show ?thesis by (rule newline)
  next
    case f
    then show ?thesis by (intro submitRun) (simp_all add: handleInputKeys_def)
  next
    case g
    then show ?thesis by (intro submit) (simp_all add: handleInputKeys_def)
  next
    case h
    obtain t n where "updateInput e m (KeyMsg k) = (m\<lparr>input := t\<rparr>, InputCmd n, [])"
      using updateInput_result[of e m "KeyMsg k"] by blast
    with h show ?thesis by (intro other[of t n]) (simp_all add: handleInputKeys_def)
  qed
qed

lemma nextCLI_frame:
  "nextCLI m = Inr m1 \<Longrightarrow> \<exists>i st. m1 = m \<or> m1 = m\<lparr>cliIndex := i, status := st\<rparr>"
  by (auto simp: nextCLI_def Let_def split: if_splits sum.splits)

lemma prevCLI_frame:
  "prevCLI m = Inr m1 \<Longrightarrow> \<exists>i st. m1 = m \<or> m1 = m\<lparr>cliIndex := i, status := st\<rparr>"
  by (auto simp: prevCLI_def Let_def split: if_splits sum.splits)

lemma handleViewingKeys_no_panic: "\<exists>res. handleViewingKeys e m k = Inr res"
  by (cases rule: handleViewingKeys_cases[where e=e and m=m and k=k]) auto

lemma handleViewingKeys_wellFormed:
  assumes wf: "wellFormed m" and h: "handleViewingKeys e m k = Inr (m', c, w)"
  shows "wellFormed m'"
proof (cases rule: handleViewingKeys_cases[where e=e and m=m and k=k])
  case (move d)
  have "wellFormed (moveSelection m d)"
    using wf moveSelection_range[of m d] move(3) by (auto simp: wellFormed_def)
  with move h show ?thesis by simp
qed (use wf h in \<open>auto simp: wellFormed_def\<close>)

lemma handleResponse_wellFormed:
  assumes wf: "wellFormed m" and h: "handleResponse e m r = Inr (m', c)"
  shows "wellFormed m'"
proof (cases rule: handleResponse_cases[where r=r and e=e])
  case (failed t)
  with wf h show ?thesis by (auto simp: handleResponse_err[OF failed] wellFormed_def)
next
  case (unparsed x t)
  with wf h show ?thesis by (auto simp: handleResponse_parse_fail[OF unparsed] wellFormed_def)
next
  case (parsed opts)
  moreover have "opts \<noteq> []" using parsed(2) by (rule parseOptions_ok)
  ultimately show ?thesis using wf h
    by (auto simp: handleResponse_ok[OF parsed] wellFormed_def split: if_splits)
qed

lemma submitPrompt_wellFormed:
  assumes wf: "wellFormed m" and h: "submitPrompt e m = Inr (m', c, w)"
  shows "wellFormed m'"
  by (cases rule: submitPrompt_cases[where e=e and m=m]) (use wf h in \<open>auto simp: wellFormed_def\<close>)

lemma handleInputKeys_wellFormed:
  assumes wf: "wellFormed m" and h: "handleInputKeys e m k = Inr (m', c, w)"
  shows "wellFormed m'"
proof (cases rule: handleInputKeys_cases[where e=e and m=m and k=k])
  case cycleNext
  have r: "0 \<le> cliIndex m" "cliIndex m < int (length (cliOptions m))"
    using wf by (simp_all add: wellFormed_def)
  then have "0 < int (length (cliOptions m))" by linarith
  with cycleNext h wf show ?thesis
    by (auto simp: nextCLI_result[OF r] wellFormed_def)
next
  case cyclePrev
  have r: "0 \<le> cliIndex m" "cliIndex m < int (length (cliOptions m))"
    using wf by (simp_all add: wellFormed_def)
  then have "0 < int (length (cliOptions m))" by linarith
  with cyclePrev h wf show ?thesis
    by (auto simp: prevCLI_result[OF r] wellFormed_def)
next
  case submitRun
  have "wellFormed (m\<lparr>autoExecute := True\<rparr>)" using wf by (simp add: wellFormed_def)
  with submitRun h show ?thesis using submitPrompt_wellFormed by metis
next
  case submit
  have "wellFormed (m\<lparr>autoExecute := False\<rparr>)" using wf by (simp add: wellFormed_def)
  with submit h show ?thesis using submitPrompt_wellFormed by metis
qed (use wf h in \<open>auto simp: wellFormed_def\<close>)

lemma Update_wellFormed:
  assumes wf: "wellFormed m" and h: "Update e m ms = Inr (m', c, w)"
  shows "wellFormed m'"
proof (cases ms)
  case (WindowSizeMsg x y)
  with wf h show ?thesis
    by (auto simp: Update_def Let_def wellFormed_def split: if_splits)
next
  case TickMsg
  with wf h show ?thesis
    by (auto simp: Update_def wellFormed_def split: if_splits)
next
  case (ResponseMsg r)
  with wf h handleResponse_wellFormed[of m e r m'] show ?thesis
    by (auto simp: Update_def split: sum.splits)
next
  case (ExecResultMsg x y)
  with wf h show ?thesis
    by (auto simp: Update_def wellFormed_def split: option.splits if_splits)
next
  case (KeyMsg k)
  show ?thesis
  proof (cases "mode m")
    case modeInput
    with KeyMsg h have "handleInputKeys e m k = Inr (m', c, w)"
      by (simp add: Update_def handleKeyMsg_def)
    with wf show ?thesis by (rule handleInputKeys_wellFormed)
  next
    case modeRunning
    with KeyMsg h wf show ?thesis
      by (auto simp: Update_def handleKeyMsg_def handleRunningKeys_def split: if_splits)
  next
    case modeViewing
    with KeyMsg h have "handleViewingKeys e m k = Inr (m', c, w)"
      by (simp add: Update_def handleKeyMsg_def)
    with wf show ?thesis by (rule handleViewingKeys_wellFormed)
  qed
next
  case (OtherMsg n)
  with wf h show ?thesis
    by (auto simp: Update_def wellFormed_def split: if_splits prod.splits)
qed

lemma reachable_wellFormed: "reachable m \<Longrightarrow> wellFormed m"
proof (induction rule: reachable.induct)
  case (start schemaErr cliAvailable equalFold input0 defaultCLI m)
  then show ?case by (rule newModel_wellFormed)
next
  case (step m e ms m' c w)
  then show ?case using Update_wellFormed by blast
qed

lemma handleResponse_no_panic: "\<exists>m1 c1. handleResponse e m r = Inr (m1, c1)"
proof (cases rule: handleResponse_cases[where r=r and e=e])
  case (failed t)
  then show ?thesis by (simp add: handleResponse_err)
next
  case (unparsed x t)
  then show ?thesis by (simp add: handleResponse_parse_fail)
next
  case (parsed opts)
  then show ?thesis by (cases "autoExecute m") (simp_all add: handleResponse_ok)
qed

lemma Update_no_panic:
  assumes wf: "wellFormed m"
  shows "\<exists>res. Update e m ms = Inr res"
proof (cases ms)
  case (KeyMsg k)
  have r: "0 \<le> cliIndex m" "cliIndex m < int (length (cliOptions m))"
    using wf by (simp_all add: wellFormed_def)
  have s: "\<exists>res. submitPrompt e (m\<lparr>autoExecute := b\<rparr>) = Inr res" for b
    using submitPrompt_no_panic[of "m\<lparr>autoExecute := b\<rparr>" e] r by simp
  have "\<exists>res. handleInputKeys e m k = Inr res"
    by (cases rule: handleInputKeys_cases[where e=e and m=m and k=k])
       (use s in \<open>auto simp: nextCLI_result[OF r] prevCLI_result[OF r]\<close>)
  then show ?thesis using KeyMsg handleViewingKeys_no_panic[of e m k]
    by (cases "mode m") (auto simp: Update_def handleKeyMsg_def ex_triple)
next
  case (ResponseMsg r)
  obtain m1 c1 where "handleResponse e m r = Inr (m1, c1)"
    using handleResponse_no_panic[of e m r] by blast
  then show ?thesis using ResponseMsg by (simp add: Update_def)
qed (auto simp: Update_def Let_def split: option.splits prod.splits)



lemma handleInputKeys_effect:
  assumes h: "handleInputKeys e m k = Inr (m', c, w)"
  shows "\<not> execs c" and "w = []"
    and "\<not> isCtrlR k \<Longrightarrow> autoExecute m' \<Longrightarrow> autoExecute m"
    and "mode m' = modeRunning \<Longrightarrow> mode m \<noteq> modeRunning \<Longrightarrow>
         autoExecute m' = isCtrlR k
         \<and> c = Batch [RunPrompt (name (cliOptions m ! nat (cliIndex m)))
                        (buildPrompt (TrimRightNewlines (inputValue e (input m)))), TickCmd]
         \<and> cliIndex m' = cliIndex m \<and> cliOptions m' = cliOptions m"
proof -
  have "\<not> execs c \<and> w = [] \<and> (\<not> isCtrlR k \<longrightarrow> autoExecute m' \<longrightarrow> autoExecute m)
        \<and> (mode m' = modeRunning \<longrightarrow> mode m \<noteq> modeRunning \<longrightarrow>
         autoExecute m' = isCtrlR k
         \<and> c = Batch [RunPrompt (name (cliOptions m ! nat (cliIndex m)))
                        (buildPrompt (TrimRightNewlines (inputValue e (input m)))), TickCmd]
         \<and> cliIndex m' = cliIndex m \<and> cliOptions m' = cliOptions m)"
  proof (cases rule: handleInputKeys_cases[where e=e and m=m and k=k])
    case quit
    with h show ?thesis by auto
  next
    case cycleNext
    with h obtain m1 where "nextCLI m = Inr m1" "m' = m1" "c = NoCmd" "w = []"
      by (auto split: sum.splits)
    then show ?thesis using nextCLI_frame[of m m1] by auto
  next
    case cyclePrev
    with h obtain m1 where "prevCLI m = Inr m1" "m' = m1" "c = NoCmd" "w = []"
      by (auto split: sum.splits)
    then show ?thesis using prevCLI_frame[of m m1] by auto
  next
    case (newline t n)
    with h show ?thesis by auto
  next
    case submitRun
    show ?thesis
      by (cases rule: submitPrompt_cases[where e=e and m="m\<lparr>autoExecute := True\<rparr>"])
         (use submitRun h in auto)
  next
    case submit
    show ?thesis
      by (cases rule: submitPrompt_cases[where e=e and m="m\<lparr>autoExecute := False\<rparr>"])
         (use submit h in auto)
  next
    case (other t n)
    with h show ?thesis by auto
  qed
  then show "\<not> execs c" and "w = []"
    and "\<not> isCtrlR k \<Longrightarrow> autoExecute m' \<Longrightarrow> autoExecute m"
    and "mode m' = modeRunning \<Longrightarrow> mode m \<noteq> modeRunning \<Longrightarrow>
         autoExecute m' = isCtrlR k
         \<and> c = Batch [RunPrompt (name (cliOptions m ! nat (cliIndex m)))
                        (buildPrompt (TrimRightNewlines (inputValue e (input m)))), TickCmd]
         \<and> cliIndex m' = cliIndex m \<and> cliOptions m' = cliOptions m"
    by blast+
qed

lemma handleViewingKeys_effect:
  assumes h: "handleViewingKeys e m k = Inr (m', c, w)"
  shows "autoExecute m' \<Longrightarrow> autoExecute m"
    and "execs c \<Longrightarrow> isCtrlR k"
    and "cliIndex m' = cliIndex m" and "cliOptions m' = cliOptions m"
    and "mode m' \<noteq> mode m \<Longrightarrow> mode m' = modeInput \<and> \<not> autoExecute m'"
    and "options m' = options m \<or> options m' = []"
    and "c = ExecWithFeedback v x \<Longrightarrow> v = actionValue m"
    and "set w \<subseteq> {actionValue m}"
proof -
  have "(autoExecute m' \<longrightarrow> autoExecute m) \<and> (execs c \<longrightarrow> isCtrlR k)
        \<and> cliIndex m' = cliIndex m \<and> cliOptions m' = cliOptions m
        \<and> (mode m' \<noteq> mode m \<longrightarrow> mode m' = modeInput \<and> \<not> autoExecute m')
        \<and> (options m' = options m \<or> options m' = [])
        \<and> (c = ExecWithFeedback v x \<longrightarrow> v = actionValue m)
        \<and> set w \<subseteq> {actionValue m}"
    by (cases rule: handleViewingKeys_cases[where e=e and m=m and k=k]) (use h in auto)
  then show "autoExecute m' \<Longrightarrow> autoExecute m"
    and "execs c \<Longrightarrow> isCtrlR k"
    and "cliIndex m' = cliIndex m" and "cliOptions m' = cliOptions m"
    and "mode m' \<noteq> mode m \<Longrightarrow> mode m' = modeInput \<and> \<not> autoExecute m'"
    and "options m' = options m \<or> options m' = []"
    and "c = ExecWithFeedback v x \<Longrightarrow> v = actionValue m"
    and "set w \<subseteq> {actionValue m}"
    by blast+
qed

lemma handleResponse_effect:
  assumes h: "handleResponse e m r = Inr (m', c)"
  shows "autoExecute m' \<Longrightarrow> autoExecute m"
    and "execs c \<Longrightarrow> autoExecute m \<and> \<not> autoExecute m'"
    and "c = ExecWithFeedback v x \<Longrightarrow>
         options m' \<noteq> [] \<and> v = Value (options m' ! 0) \<and> x
         \<and> status m' = ''running: '' @ cleanText v"
proof -
  have "(autoExecute m' \<longrightarrow> autoExecute m) \<and> (execs c \<longrightarrow> autoExecute m \<and> \<not> autoExecute m')
        \<and> (c = ExecWithFeedback v x \<longrightarrow>
         options m' \<noteq> [] \<and> v = Value (options m' ! 0) \<and> x
         \<and> status m' = ''running: '' @ cleanText v)"
  proof (cases rule: handleResponse_cases[where r=r and e=e])
    case (failed t)
    with h show ?thesis by (auto simp: handleResponse_err)
  next
    case (unparsed y t)
    with h show ?thesis by (auto simp: handleResponse_parse_fail)
  next
    case (parsed opts)
    moreover have "opts \<noteq> []" using parsed(2) by (rule parseOptions_ok)
    ultimately show ?thesis using h
      by (cases "autoExecute m") (auto simp: handleResponse_ok)
  qed
  then show "autoExecute m' \<Longrightarrow> autoExecute m"
    and "execs c \<Longrightarrow> autoExecute m \<and> \<not> autoExecute m'"
    and "c = ExecWithFeedback v x \<Longrightarrow>
         options m' \<noteq> [] \<and> v = Value (options m' ! 0) \<and> x
         \<and> status m' = ''running: '' @ cleanText v"
    by blast+
qed

lemma Update_flag:
  assumes h: "Update e m ms = Inr (m', c, w)" and f: "\<not> autoExecute m" "autoExecute m'"
  shows "mode m = modeInput \<and> (\<exists>k. ms = KeyMsg k \<and> isCtrlR k)"
proof (cases ms)
  case (WindowSizeMsg x y)
  with h f show ?thesis by (auto simp: Update_def Let_def split: if_splits)
next
  case TickMsg
  with h f show ?thesis by (auto simp: Update_def split: if_splits)
next
  case (ResponseMsg r)
  with h obtain c1 where "handleResponse e m r = Inr (m', c1)"
    by (auto simp: Update_def split: sum.splits)
  with f handleResponse_effect(1) show ?thesis by blast
next
  case (ExecResultMsg x y)
  with h f show ?thesis by (auto simp: Update_def split: option.splits if_splits)
next
  case (KeyMsg k)
  show ?thesis
  proof (cases "mode m")
    case modeInput
    with KeyMsg h have "handleInputKeys e m k = Inr (m', c, w)"
      by (simp add: Update_def handleKeyMsg_def)
    with f handleInputKeys_effect(3) have "isCtrlR k" by blast
    with modeInput KeyMsg show ?thesis by simp
  next
    case modeRunning
    with KeyMsg h f show ?thesis
      by (auto simp: Update_def handleKeyMsg_def handleRunningKeys_def split: if_splits)
  next
    case modeViewing
    with KeyMsg h have "handleViewingKeys e m k = Inr (m', c, w)"
      by (simp add: Update_def handleKeyMsg_def)
    with f handleViewingKeys_effect(1) show ?thesis by blast
  qed
next
  case (OtherMsg n)
  with h f show ?thesis by (auto simp: Update_def split: if_splits prod.splits)
qed

lemma Update_execs:
  assumes h: "Update e m ms = Inr (m', c, w)" and x: "execs c"
  shows "(\<exists>r. ms = ResponseMsg r \<and> autoExecute m)
         \<or> (\<exists>k. ms = KeyMsg k \<and> isCtrlR k \<and> mode m = modeViewing)"
proof (cases ms)
  case (WindowSizeMsg a b)
  with h x show ?thesis by (auto simp: Update_def Let_def split: if_splits)
next
  case TickMsg
  with h x show ?thesis by (auto simp: Update_def split: if_splits)
next
  case (ResponseMsg r)
  with h have "handleResponse e m r = Inr (m', c)"
    by (auto simp: Update_def split: sum.splits)
  with x handleResponse_effect(2) ResponseMsg show ?thesis by blast
next
  case (ExecResultMsg a b)
  with h x show ?thesis by (auto simp: Update_def split: option.splits if_splits)
next
  case (KeyMsg k)
  show ?thesis
  proof (cases "mode m")
    case modeInput
    with KeyMsg h have "handleInputKeys e m k = Inr (m', c, w)"
      by (simp add: Update_def handleKeyMsg_def)
    with x handleInputKeys_effect(1) show ?thesis by blast
  next
    case modeRunning
    with KeyMsg h x show ?thesis
      by (auto simp: Update_def handleKeyMsg_def handleRunningKeys_def split: if_splits)
  next
    case modeViewing
    with KeyMsg h have "handleViewingKeys e m k = Inr (m', c, w)"
      by (simp add: Update_def handleKeyMsg_def)
    with x handleViewingKeys_effect(2) modeViewing KeyMsg show ?thesis by blast
  qed
next
  case (OtherMsg n)
  with h x show ?thesis by (auto simp: Update_def split: if_splits prod.splits)
qed

lemma runMsgs_no_exec:
  "\<not> autoExecute m \<Longrightarrow> \<forall>ms\<in>set msgs. \<forall>k. ms = KeyMsg k \<longrightarrow> \<not> isCtrlR k \<Longrightarrow>
   runMsgs e m msgs = Inr (m2, cs) \<Longrightarrow> \<not> autoExecute m2 \<and> (\<forall>c\<in>set cs. \<not> execs c)"
proof (induction msgs arbitrary: m cs)
  case Nil
  then show ?case by simp
next
  case (Cons ms rest)
  from Cons.prems(3) obtain m1 c1 w1 cs1 where
    u: "Update e m ms = Inr (m1, c1, w1)" and r: "runMsgs e m1 rest = Inr (m2, cs1)"
    and cs: "cs = c1 # cs1"
    by (auto split: sum.splits prod.splits)
  have nk: "\<And>k. ms = KeyMsg k \<Longrightarrow> \<not> isCtrlR k" using Cons.prems(2) by simp
  have f1: "\<not> autoExecute m1"
    using Update_flag[OF u Cons.prems(1)] nk by blast
  have x1: "\<not> execs c1"
    using Update_execs[OF u] Cons.prems(1) nk by blast
  have "\<not> autoExecute m2 \<and> (\<forall>c\<in>set cs1. \<not> execs c)"
    using Cons.IH[OF f1 _ r] Cons.prems(2) by simp
  with x1 cs show ?case by simp
qed



section \<open>The state machine\<close>

lemma Update_KeyMsg:
  "mode m = modeInput \<Longrightarrow> Update e m (KeyMsg k) = handleInputKeys e m k"
  "mode m = modeRunning \<Longrightarrow> Update e m (KeyMsg k) = Inr (handleRunningKeys m k)"
  "mode m = modeViewing \<Longrightarrow> Update e m (KeyMsg k) = handleViewingKeys e m k"
  by (simp_all add: Update_def handleKeyMsg_def)

lemma sample_TrimSpace:
  "TrimSpace ''list files'' = ''list files''"
  "TrimSpace sampleOutput = sampleOutput"
  "TrimSpace ''I think you want: ls -la'' = ''I think you want: ls -la''"
  unfolding sampleOutput_def by code_simp+

lemma sample_parse:
  "parseOptions sampleDecoder sampleOutput =
     ([\<lparr>Value = ''ls -la'', Description = [], RecommendationOrder = 1\<rparr>,
       \<lparr>Value = ''ls'', Description = [], RecommendationOrder = 2\<rparr>], None)"
  "parseOptions sampleDecoder ''I think you want: ls -la'' = ([], Some parseError)"
  by (simp_all add: parseOptions_candidates sampleOutput_def marker_def sampleDecoder_def
      decodesToOptions_def SliceStable_lessOpts sortsFirst_def)

lemma sample_submit:
  "Update sampleEnv sampleModel (KeyMsg (sampleKey KeyCtrlR ''ctrl+r''))
     = Inr (sampleRunning True, Batch [RunPrompt ''codex'' (buildPrompt ''list files''), TickCmd], [])"
  "Update sampleEnv sampleModel (KeyMsg (sampleKey KeyEnter ''enter''))
     = Inr (sampleRunning False, Batch [RunPrompt ''codex'' (buildPrompt ''list files''), TickCmd], [])"
  by (simp_all add: Update_KeyMsg sampleModel_def sampleKey_def handleInputKeys_def isNewline_def
      isCtrlR_def isCtrlEnter_def submitPrompt_def sampleEnv_def TrimRightNewlines_def
      sample_TrimSpace currentCLI_def sliceAt_def resizeComponents_def sampleRunning_def Let_def)

lemma sample_response:
  "handleResponse sampleEnv (sampleRunning True) sampleResponse
     = Inr (sampleViewing\<lparr>status := ''running: ls -la''\<rparr>, ExecWithFeedback ''ls -la'' True)"
  "handleResponse sampleEnv (sampleRunning False) sampleResponse = Inr (sampleViewing, NoCmd)"
proof -
  have c: "cleanText ''ls -la'' = ''ls -la''" by code_simp
  have p: "parseOptions (decodeJSON sampleEnv) (TrimSpace (msgOutput sampleResponse)) =
     ([\<lparr>Value = ''ls -la'', Description = [], RecommendationOrder = 1\<rparr>,
       \<lparr>Value = ''ls'', Description = [], RecommendationOrder = 2\<rparr>], None)"
    by (simp add: sampleResponse_def sampleEnv_def sample_TrimSpace sample_parse)
  have e: "err sampleResponse = None" by (simp add: sampleResponse_def)
  show "handleResponse sampleEnv (sampleRunning True) sampleResponse
     = Inr (sampleViewing\<lparr>status := ''running: ls -la''\<rparr>, ExecWithFeedback ''ls -la'' True)"
    by (subst handleResponse_ok[OF e p])
       (simp add: c sampleRunning_def sampleViewing_def sampleModel_def sampleResponse_def
          sample_TrimSpace)
  show "handleResponse sampleEnv (sampleRunning False) sampleResponse = Inr (sampleViewing, NoCmd)"
    by (subst handleResponse_ok[OF e p])
       (simp add: sampleRunning_def sampleViewing_def sampleModel_def sampleResponse_def
          sample_TrimSpace)
qed

lemma sample_reachable: "reachable sampleModel" "reachable (sampleRunning False)" "reachable sampleViewing"
proof -
  have "newModel None (\<lambda>n. n = ''codex'' \<or> n = ''claude'') (=) ''list files'' ''codex'' = Inr sampleModel"
    by (simp add: newModel_def allCLIOptions_def sampleModel_def)
  then show a: "reachable sampleModel" by (rule reachable.start)
  from a sample_submit(2) show b: "reachable (sampleRunning False)" by (rule reachable.step)
  have "Update sampleEnv (sampleRunning False) (ResponseMsg sampleResponse) = Inr (sampleViewing, NoCmd, [])"
    by (simp add: Update_def sample_response)
  with b show "reachable sampleViewing" by (rule reachable.step)
qed

text \<open>
  C5. With the flag set by the submission (the key of the submission was ctrl+r) and kept
  while the runner works, a response without error that parses runs the first option of
  the ranked list at once: \<open>handleResponse\<close> returns the command that executes its value,
  with the selection on index 0. When the runner reports an error or the output does not
  parse (which includes a parse without options), \<open>handleResponse\<close> returns no command
  and the model shows the response in viewing mode.
\<close>

theorem auto_execute_top_option:
  "(mode m0 = modeInput \<and> isCtrlR k \<and> Update e m0 (KeyMsg k) = Inr (m, c0, w0)
      \<and> mode m = modeRunning \<longrightarrow> autoExecute m)
   \<and> (mode m = modeRunning \<and> (\<forall>r'. ms \<noteq> ResponseMsg r') \<and> Update e m ms = Inr (m1, c1, w1)
      \<longrightarrow> autoExecute m1 = autoExecute m \<and> \<not> execs c1)
   \<and> (autoExecute m \<and> err r = None
        \<and> parseOptions (decodeJSON e) (TrimSpace (msgOutput r)) = (opts, None)
      \<longrightarrow> opts \<noteq> []
          \<and> (\<exists>m'. handleResponse e m r = Inr (m', ExecWithFeedback (Value (opts ! 0)) True)
                 \<and> mode m' = modeViewing \<and> options m' = opts \<and> selected m' = 0
                 \<and> \<not> autoExecute m'))
   \<and> (err r \<noteq> None \<or> snd (parseOptions (decodeJSON e) (TrimSpace (msgOutput r))) \<noteq> None
      \<longrightarrow> (\<exists>m'. handleResponse e m r = Inr (m', NoCmd)
                 \<and> mode m' = modeViewing \<and> options m' = []))"
proof -
  have c1: "autoExecute m"
    if a: "mode m0 = modeInput \<and> isCtrlR k \<and> Update e m0 (KeyMsg k) = Inr (m, c0, w0)
      \<and> mode m = modeRunning"
  proof -
    from a have "handleInputKeys e m0 k = Inr (m, c0, w0)"
      using Update_KeyMsg(1)[of m0 e k] by auto
    from handleInputKeys_effect(4)[OF this] a show "autoExecute m" by simp
  qed
  have c2: "autoExecute m1 = autoExecute m \<and> \<not> execs c1"
    if a: "mode m = modeRunning \<and> (\<forall>r'. ms \<noteq> ResponseMsg r') \<and> Update e m ms = Inr (m1, c1, w1)"
  proof (cases ms)
    case (ResponseMsg r')
    with a show ?thesis by simp
  next
    case (KeyMsg k')
    with a show ?thesis
      using Update_KeyMsg(2)[of m e k'] by (auto simp: handleRunningKeys_def split: if_splits)
  qed (use a in \<open>auto simp: Update_def Let_def split: if_splits option.splits\<close>)
  have c3: "opts \<noteq> []
          \<and> (\<exists>m'. handleResponse e m r = Inr (m', ExecWithFeedback (Value (opts ! 0)) True)
                 \<and> mode m' = modeViewing \<and> options m' = opts \<and> selected m' = 0
                 \<and> \<not> autoExecute m')"
    if a: "autoExecute m \<and> err r = None
        \<and> parseOptions (decodeJSON e) (TrimSpace (msgOutput r)) = (opts, None)"
  proof -
    from a have ne: "opts \<noteq> []" using parseOptions_ok by blast
    from a have "handleResponse e m r =
        Inr (m\<lparr>running := False, mode := modeViewing,
               rawOutput := TrimSpace (msgOutput r), lastParseError := None,
               options := opts, selected := 0,
               status := ''running: '' @ cleanText (Value (opts ! 0)),
               autoExecute := False\<rparr>,
             ExecWithFeedback (Value (opts ! 0)) True)"
      by (simp add: handleResponse_ok)
    with ne show ?thesis by simp
  qed
  have c4: "\<exists>m'. handleResponse e m r = Inr (m', NoCmd) \<and> mode m' = modeViewing \<and> options m' = []"
    if a: "err r \<noteq> None \<or> snd (parseOptions (decodeJSON e) (TrimSpace (msgOutput r))) \<noteq> None"
  proof (cases rule: handleResponse_cases[where r=r and e=e])
    case (failed t)
    then show ?thesis by (simp add: handleResponse_err)
  next
    case (unparsed x t)
    then show ?thesis by (simp add: handleResponse_parse_fail)
  next
    case (parsed opts')
    with a show ?thesis by simp
  qed
  show ?thesis using c1 c2 c3 c4 by blast
qed



theorem auto_execute_top_option_witness:
  "mode sampleModel = modeInput \<and> isCtrlR (sampleKey KeyCtrlR ''ctrl+r'')
   \<and> Update sampleEnv sampleModel (KeyMsg (sampleKey KeyCtrlR ''ctrl+r''))
       = Inr (sampleRunning True, Batch [RunPrompt ''codex'' (buildPrompt ''list files''), TickCmd], [])
   \<and> autoExecute (sampleRunning True)
   \<and> Update sampleEnv (sampleRunning True) TickMsg
       = Inr ((sampleRunning True)\<lparr>spinnerFrame := 1\<rparr>, TickCmd, [])
   \<and> handleResponse sampleEnv (sampleRunning True) sampleResponse
       = Inr (sampleViewing\<lparr>status := ''running: ls -la''\<rparr>, ExecWithFeedback ''ls -la'' True)
   \<and> handleResponse sampleEnv (sampleRunning True)
         \<lparr>msgOutput = ''I think you want: ls -la'', err = None, cli = ''codex''\<rparr>
       = Inr (sampleModel\<lparr>lastPrompt := ''list files'', mode := modeViewing,
                rawOutput := ''I think you want: ls -la'', lastParseError := Some parseError,
                status := ''parse error: '' @ parseError @ '' '' @ bullet @ '' '' @ helpViewing,
                autoExecute := True\<rparr>, NoCmd)"
proof -
  have t: "Update sampleEnv (sampleRunning True) TickMsg
       = Inr ((sampleRunning True)\<lparr>spinnerFrame := 1\<rparr>, TickCmd, [])"
    by (simp add: Update_def sampleRunning_def sampleModel_def goRem_def)
  have p: "handleResponse sampleEnv (sampleRunning True)
         \<lparr>msgOutput = ''I think you want: ls -la'', err = None, cli = ''codex''\<rparr>
       = Inr (sampleModel\<lparr>lastPrompt := ''list files'', mode := modeViewing,
                rawOutput := ''I think you want: ls -la'', lastParseError := Some parseError,
                status := ''parse error: '' @ parseError @ '' '' @ bullet @ '' '' @ helpViewing,
                autoExecute := True\<rparr>, NoCmd)"
    by (subst handleResponse_parse_fail[where x="[]" and t=parseError])
       (simp_all add: sampleEnv_def sample_TrimSpace sample_parse sampleRunning_def sampleModel_def)
  show ?thesis
    using t p sample_submit(1) sample_response(1)
      auto_execute_top_option[where ?m0.0=sampleModel and k="sampleKey KeyCtrlR ''ctrl+r''"
        and e=sampleEnv and m="sampleRunning True" and ms=TickMsg and r=sampleResponse
        and ?c0.0="Batch [RunPrompt ''codex'' (buildPrompt ''list files''), TickCmd]" and ?w0.0="[]"
        and opts="[\<lparr>Value = ''ls -la'', Description = [], RecommendationOrder = 1\<rparr>,
                   \<lparr>Value = ''ls'', Description = [], RecommendationOrder = 2\<rparr>]"]
    by (simp add: sampleModel_def sampleKey_def isCtrlR_def sampleRunning_def)
qed

text \<open>
  C4, as the code has it. While the runner works every key leaves the model as it is
  (ctrl+c and esc quit), so the runner index cannot change, and no key changes it in
  viewing mode. In input mode ctrl+n and ctrl+p move the index forwards and backwards
  with wrap-around, and a submission dispatches the prompt to the runner the index
  names at that moment.
\<close>

theorem runner_cycling_in_input_mode:
  "(mode m = modeRunning \<longrightarrow>
      Update e m (KeyMsg k)
        = Inr (m, if Type k = KeyCtrlC \<or> keyString k = ''esc'' then Quit else NoCmd, []))
   \<and> (mode m = modeViewing \<and> Update e m (KeyMsg k) = Inr (m1, c1, w1)
      \<longrightarrow> cliIndex m1 = cliIndex m \<and> cliOptions m1 = cliOptions m)
   \<and> (mode m = modeInput \<and> 0 \<le> cliIndex m \<and> cliIndex m < int (length (cliOptions m))
        \<and> Type k \<noteq> KeyCtrlC \<and> keyString k = ''ctrl+n''
      \<longrightarrow> Update e m (KeyMsg k)
            = Inr (m\<lparr>cliIndex := (cliIndex m + 1) mod int (length (cliOptions m)),
                     status := ''using ''
                       @ name (cliOptions m ! nat ((cliIndex m + 1) mod int (length (cliOptions m))))
                       @ '' '' @ bullet @ '' '' @ helpInput\<rparr>, NoCmd, []))
   \<and> (mode m = modeInput \<and> 0 \<le> cliIndex m \<and> cliIndex m < int (length (cliOptions m))
        \<and> Type k \<noteq> KeyCtrlC \<and> keyString k = ''ctrl+p''
      \<longrightarrow> Update e m (KeyMsg k)
            = Inr (m\<lparr>cliIndex := (cliIndex m - 1) mod int (length (cliOptions m)),
                     status := ''using ''
                       @ name (cliOptions m ! nat ((cliIndex m - 1) mod int (length (cliOptions m))))
                       @ '' '' @ bullet @ '' '' @ helpInput\<rparr>, NoCmd, []))
   \<and> (mode m = modeInput \<and> Update e m (KeyMsg k) = Inr (m1, c1, w1) \<and> mode m1 = modeRunning
      \<longrightarrow> cliIndex m1 = cliIndex m
          \<and> c1 = Batch [RunPrompt (name (cliOptions m ! nat (cliIndex m)))
                          (buildPrompt (TrimRightNewlines (inputValue e (input m)))), TickCmd])"
proof -
  have c1: "Update e m (KeyMsg k)
        = Inr (m, if Type k = KeyCtrlC \<or> keyString k = ''esc'' then Quit else NoCmd, [])"
    if "mode m = modeRunning"
    using that by (simp add: Update_KeyMsg handleRunningKeys_def)
  have c2: "cliIndex m1 = cliIndex m \<and> cliOptions m1 = cliOptions m"
    if a: "mode m = modeViewing \<and> Update e m (KeyMsg k) = Inr (m1, c1, w1)"
  proof -
    from a have "handleViewingKeys e m k = Inr (m1, c1, w1)"
      using Update_KeyMsg(3)[of m e k] by auto
    then show ?thesis using handleViewingKeys_effect(3,4) by blast
  qed
  have c3: "Update e m (KeyMsg k)
            = Inr (m\<lparr>cliIndex := (cliIndex m + 1) mod int (length (cliOptions m)),
                     status := ''using ''
                       @ name (cliOptions m ! nat ((cliIndex m + 1) mod int (length (cliOptions m))))
                       @ '' '' @ bullet @ '' '' @ helpInput\<rparr>, NoCmd, [])"
    if a: "mode m = modeInput \<and> 0 \<le> cliIndex m \<and> cliIndex m < int (length (cliOptions m))
        \<and> Type k \<noteq> KeyCtrlC \<and> keyString k = ''ctrl+n''"
  proof -
    from a have r: "0 \<le> cliIndex m" "cliIndex m < int (length (cliOptions m))" by simp_all
    from a have "Update e m (KeyMsg k) = (case nextCLI m of Inl p \<Rightarrow> Inl p | Inr m1 \<Rightarrow> Inr (m1, NoCmd, []))"
      by (simp add: Update_KeyMsg handleInputKeys_def)
    then show ?thesis by (simp add: nextCLI_result[OF r])
  qed
  have c4: "Update e m (KeyMsg k)
            = Inr (m\<lparr>cliIndex := (cliIndex m - 1) mod int (length (cliOptions m)),
                     status := ''using ''
                       @ name (cliOptions m ! nat ((cliIndex m - 1) mod int (length (cliOptions m))))
                       @ '' '' @ bullet @ '' '' @ helpInput\<rparr>, NoCmd, [])"
    if a: "mode m = modeInput \<and> 0 \<le> cliIndex m \<and> cliIndex m < int (length (cliOptions m))
        \<and> Type k \<noteq> KeyCtrlC \<and> keyString k = ''ctrl+p''"
  proof -
    from a have r: "0 \<le> cliIndex m" "cliIndex m < int (length (cliOptions m))" by simp_all
    from a have "Update e m (KeyMsg k) = (case prevCLI m of Inl p \<Rightarrow> Inl p | Inr m1 \<Rightarrow> Inr (m1, NoCmd, []))"
      by (simp add: Update_KeyMsg handleInputKeys_def)
    then show ?thesis by (simp add: prevCLI_result[OF r])
  qed
  have c5: "cliIndex m1 = cliIndex m
          \<and> c1 = Batch [RunPrompt (name (cliOptions m ! nat (cliIndex m)))
                          (buildPrompt (TrimRightNewlines (inputValue e (input m)))), TickCmd]"
    if a: "mode m = modeInput \<and> Update e m (KeyMsg k) = Inr (m1, c1, w1) \<and> mode m1 = modeRunning"
  proof -
    from a have "handleInputKeys e m k = Inr (m1, c1, w1)"
      using Update_KeyMsg(1)[of m e k] by auto
    from handleInputKeys_effect(4)[OF this] a show ?thesis by simp
  qed
  show ?thesis using c1 c2 c3 c4 c5 by blast
qed

theorem runner_cycling_in_input_mode_witness:
  "mode sampleModel = modeInput \<and> cliIndex sampleModel = 0 \<and> length (cliOptions sampleModel) = 2
   \<and> Update sampleEnv sampleModel (KeyMsg (sampleKey KeyOther ''ctrl+n''))
       = Inr (sampleModel\<lparr>cliIndex := 1,
                status := ''using claude '' @ bullet @ '' '' @ helpInput\<rparr>, NoCmd, [])
   \<and> Update sampleEnv sampleModel (KeyMsg (sampleKey KeyOther ''ctrl+p''))
       = Inr (sampleModel\<lparr>cliIndex := 1,
                status := ''using claude '' @ bullet @ '' '' @ helpInput\<rparr>, NoCmd, [])
   \<and> Update sampleEnv (sampleModel\<lparr>cliIndex := 1\<rparr>) (KeyMsg (sampleKey KeyOther ''ctrl+n''))
       = Inr (sampleModel\<lparr>cliIndex := 0,
                status := ''using codex '' @ bullet @ '' '' @ helpInput\<rparr>, NoCmd, [])
   \<and> Update sampleEnv (sampleModel\<lparr>cliIndex := 1\<rparr>) (KeyMsg (sampleKey KeyEnter ''enter''))
       = Inr ((sampleRunning False)\<lparr>cliIndex := 1\<rparr>,
              Batch [RunPrompt ''claude'' (buildPrompt ''list files''), TickCmd], [])
   \<and> Update sampleEnv sampleViewing (KeyMsg (sampleKey KeyOther ''ctrl+n''))
       = Inr (sampleViewing, NoCmd, [])
   \<and> mode (sampleRunning True) = modeRunning
   \<and> Update sampleEnv (sampleRunning True) (KeyMsg (sampleKey KeyOther ''esc''))
       = Inr (sampleRunning True, Quit, [])"
proof -
  have a: "Update sampleEnv sampleModel (KeyMsg (sampleKey KeyOther ''ctrl+n''))
       = Inr (sampleModel\<lparr>cliIndex := 1,
                status := ''using claude '' @ bullet @ '' '' @ helpInput\<rparr>, NoCmd, [])"
    by (simp add: Update_KeyMsg sampleModel_def sampleKey_def handleInputKeys_def nextCLI_def
        currentCLI_def sliceAt_def goRem_def Let_def)
  have b: "Update sampleEnv sampleModel (KeyMsg (sampleKey KeyOther ''ctrl+p''))
       = Inr (sampleModel\<lparr>cliIndex := 1,
                status := ''using claude '' @ bullet @ '' '' @ helpInput\<rparr>, NoCmd, [])"
    by (simp add: Update_KeyMsg sampleModel_def sampleKey_def handleInputKeys_def prevCLI_def
        currentCLI_def sliceAt_def goRem_def Let_def)
  have c: "Update sampleEnv (sampleModel\<lparr>cliIndex := 1\<rparr>) (KeyMsg (sampleKey KeyOther ''ctrl+n''))
       = Inr (sampleModel\<lparr>cliIndex := 0,
                status := ''using codex '' @ bullet @ '' '' @ helpInput\<rparr>, NoCmd, [])"
    by (simp add: Update_KeyMsg sampleModel_def sampleKey_def handleInputKeys_def nextCLI_def
        currentCLI_def sliceAt_def goRem_def Let_def)
  have d: "Update sampleEnv (sampleModel\<lparr>cliIndex := 1\<rparr>) (KeyMsg (sampleKey KeyEnter ''enter''))
       = Inr ((sampleRunning False)\<lparr>cliIndex := 1\<rparr>,
              Batch [RunPrompt ''claude'' (buildPrompt ''list files''), TickCmd], [])"
    by (simp add: Update_KeyMsg sampleModel_def sampleKey_def handleInputKeys_def isNewline_def
      isCtrlR_def isCtrlEnter_def submitPrompt_def sampleEnv_def TrimRightNewlines_def
      sample_TrimSpace currentCLI_def sliceAt_def resizeComponents_def sampleRunning_def Let_def)
  have f: "Update sampleEnv sampleViewing (KeyMsg (sampleKey KeyOther ''ctrl+n''))
       = Inr (sampleViewing, NoCmd, [])"
    by (simp add: Update_KeyMsg sampleViewing_def sampleModel_def sampleKey_def
        handleViewingKeys_def isNewline_def isCtrlR_def)
  show ?thesis
    using a b c d f
      runner_cycling_in_input_mode[where m=sampleModel and e=sampleEnv
        and k="sampleKey KeyOther ''ctrl+n''"]
      runner_cycling_in_input_mode[where m=sampleViewing and e=sampleEnv
        and k="sampleKey KeyOther ''ctrl+n''" and ?m1.0=sampleViewing and ?c1.0=NoCmd and ?w1.0="[]"]
      runner_cycling_in_input_mode[where m="sampleRunning True" and e=sampleEnv
        and k="sampleKey KeyOther ''esc''"]
    by (simp add: sampleModel_def sampleRunning_def sampleKey_def)
qed

theorem runner_cycling_while_running_counterexample:
  "mode (sampleRunning False) = modeRunning
   \<and> length (cliOptions (sampleRunning False)) = 2
   \<and> Update sampleEnv (sampleRunning False) (KeyMsg (sampleKey KeyOther ''ctrl+n''))
       = Inr (sampleRunning False, NoCmd, [])
   \<and> Update sampleEnv (sampleRunning False) (KeyMsg (sampleKey KeyOther ''ctrl+p''))
       = Inr (sampleRunning False, NoCmd, [])
   \<and> cliIndex (sampleRunning False)
       \<noteq> goRem (cliIndex (sampleRunning False) + 1) (int (length (cliOptions (sampleRunning False))))"
  by (simp add: Update_KeyMsg handleRunningKeys_def sampleRunning_def sampleModel_def sampleKey_def
      goRem_def)



text \<open>
  C6. In every reachable model with options the selection index is within range, so
  \<open>selectedValue\<close> reads the selected option; \<open>selectedValue\<close> never reads out of range,
  whatever the model, and returns the empty string when there are no options; no
  message makes \<open>Update\<close> panic in a reachable model. Moving the selection by one, up or
  down, is addition modulo the number of options, and changes nothing when there are
  no options; the keys up, k, down and j of viewing mode do just that.
\<close>

theorem selection_index_in_range:
  "(reachable m \<and> options m \<noteq> [] \<longrightarrow>
      0 \<le> selected m \<and> selected m < int (length (options m))
      \<and> selectedValue m = Inr (Value (options m ! nat (selected m)))
      \<and> selected (moveSelection m 1) = (selected m + 1) mod int (length (options m))
      \<and> selected (moveSelection m (- 1)) = (selected m - 1) mod int (length (options m)))
   \<and> (options m = [] \<longrightarrow> selectedValue m = Inr [] \<and> moveSelection m d = m)
   \<and> (\<exists>v. selectedValue m = Inr v)
   \<and> (reachable m \<longrightarrow> (\<exists>res. Update e m ms = Inr res))
   \<and> (mode m = modeViewing \<and> Type k \<noteq> KeyCtrlC \<and> Type k \<noteq> KeyEnter \<and> \<not> isNewline k
        \<and> \<not> isCtrlR k \<and> (keyString k = ''up'' \<or> keyString k = ''k'')
      \<longrightarrow> Update e m (KeyMsg k) = Inr (moveSelection m (- 1), NoCmd, []))
   \<and> (mode m = modeViewing \<and> Type k \<noteq> KeyCtrlC \<and> Type k \<noteq> KeyEnter \<and> \<not> isNewline k
        \<and> \<not> isCtrlR k \<and> (keyString k = ''down'' \<or> keyString k = ''j'')
      \<longrightarrow> Update e m (KeyMsg k) = Inr (moveSelection m 1, NoCmd, []))"
proof -
  have c1: "0 \<le> selected m \<and> selected m < int (length (options m))
      \<and> selectedValue m = Inr (Value (options m ! nat (selected m)))
      \<and> selected (moveSelection m 1) = (selected m + 1) mod int (length (options m))
      \<and> selected (moveSelection m (- 1)) = (selected m - 1) mod int (length (options m))"
    if a: "reachable m \<and> options m \<noteq> []"
  proof -
    from a have "wellFormed m" using reachable_wellFormed by blast
    with a have r: "options m \<noteq> []" "0 \<le> selected m" "selected m < int (length (options m))"
      by (simp_all add: wellFormed_def)
    show ?thesis
      using r selectedValue_in_range[OF r] moveSelection_range[OF r(1,2), of 1]
        moveSelection_range[OF r(1,2), of "- 1"]
      by simp
  qed
  have c2: "selectedValue m = Inr [] \<and> moveSelection m d = m" if "options m = []"
    using that by (simp add: selectedValue_def moveSelection_def)
  have c3: "\<exists>v. selectedValue m = Inr v" by (rule selectedValue_no_panic)
  have c4: "\<exists>res. Update e m ms = Inr res" if "reachable m"
    using that reachable_wellFormed Update_no_panic by blast
  have c5: "Update e m (KeyMsg k) = Inr (moveSelection m (- 1), NoCmd, [])"
    if "mode m = modeViewing \<and> Type k \<noteq> KeyCtrlC \<and> Type k \<noteq> KeyEnter \<and> \<not> isNewline k
        \<and> \<not> isCtrlR k \<and> (keyString k = ''up'' \<or> keyString k = ''k'')"
    using that by (auto simp: Update_KeyMsg handleViewingKeys_def)
  have c6: "Update e m (KeyMsg k) = Inr (moveSelection m 1, NoCmd, [])"
    if "mode m = modeViewing \<and> Type k \<noteq> KeyCtrlC \<and> Type k \<noteq> KeyEnter \<and> \<not> isNewline k
        \<and> \<not> isCtrlR k \<and> (keyString k = ''down'' \<or> keyString k = ''j'')"
    using that by (auto simp: Update_KeyMsg handleViewingKeys_def)
  show ?thesis using c1 c2 c3 c4 c5 c6 by blast
qed

theorem selection_index_in_range_witness:
  "reachable sampleViewing \<and> length (options sampleViewing) = 2 \<and> selected sampleViewing = 0
   \<and> selectedValue sampleViewing = Inr ''ls -la''
   \<and> selected (moveSelection sampleViewing 1) = 1
   \<and> selected (moveSelection sampleViewing (- 1)) = 1
   \<and> selected (moveSelection (moveSelection sampleViewing 1) 1) = 0
   \<and> reachable sampleModel \<and> options sampleModel = []
   \<and> selectedValue sampleModel = Inr [] \<and> moveSelection sampleModel 1 = sampleModel
   \<and> Update sampleEnv sampleViewing (KeyMsg (sampleKey KeyOther ''down''))
       = Inr (sampleViewing\<lparr>selected := 1\<rparr>, NoCmd, [])
   \<and> Update sampleEnv sampleViewing (KeyMsg (sampleKey KeyOther ''up''))
       = Inr (sampleViewing\<lparr>selected := 1\<rparr>, NoCmd, [])"
proof -
  have s: "options sampleViewing \<noteq> []" "length (options sampleViewing) = 2"
    "selected sampleViewing = 0" "options sampleModel = []"
    by (simp_all add: sampleViewing_def sampleModel_def)
  have m1: "moveSelection sampleViewing 1 = sampleViewing\<lparr>selected := 1\<rparr>"
    by (simp add: moveSelection_def sampleViewing_def sampleModel_def goRem_def)
  have m2: "selected (moveSelection (moveSelection sampleViewing 1) 1) = 0"
    by (simp add: moveSelection_def sampleViewing_def sampleModel_def goRem_def)
  have k: "mode sampleViewing = modeViewing" "\<not> isNewline (sampleKey KeyOther ''down'')"
    "\<not> isCtrlR (sampleKey KeyOther ''down'')" "Type (sampleKey KeyOther ''down'') = KeyOther"
    "keyString (sampleKey KeyOther ''down'') = ''down''"
    "\<not> isNewline (sampleKey KeyOther ''up'')"
    "\<not> isCtrlR (sampleKey KeyOther ''up'')" "Type (sampleKey KeyOther ''up'') = KeyOther"
    "keyString (sampleKey KeyOther ''up'') = ''up''"
    by (simp_all add: sampleViewing_def sampleModel_def sampleKey_def isNewline_def isCtrlR_def)
  have m3: "moveSelection sampleViewing (- 1) = sampleViewing\<lparr>selected := 1\<rparr>"
    by (simp add: moveSelection_def sampleViewing_def sampleModel_def goRem_def)
  show ?thesis
    using s m1 m2 m3 k sample_reachable
      selection_index_in_range[where m=sampleViewing and e=sampleEnv
        and k="sampleKey KeyOther ''down''"]
      selection_index_in_range[where m=sampleViewing and e=sampleEnv
        and k="sampleKey KeyOther ''up''"]
      selection_index_in_range[where m=sampleModel and d=1]
    by (simp add: sampleViewing_def sampleModel_def)
qed

lemma tableRows_values:
  "row \<in> set (tableRows i sel opts) \<Longrightarrow> fst row = selectedStyle \<or> fst row = normalStyle \<Longrightarrow>
   \<exists>opt\<in>set opts. snd row = triangle @ '' '' @ cleanText (Value opt)
                   \<or> snd row = ''  '' @ cleanText (Value opt)"
proof (induction opts arbitrary: i)
  case Nil
  then show ?case by simp
next
  case (Cons opt opts)
  from Cons.prems(1) consider
      (here) "row = (selectedStyle, triangle @ '' '' @ cleanText (Value opt))
              \<or> row = (normalStyle, ''  '' @ cleanText (Value opt))"
    | (desc) "row = (descStyle, ''  '' @ cleanText (Description opt))"
    | (later) "row \<in> set (tableRows (i + 1) sel opts)"
    by (auto simp: Let_def split: if_splits)
  then show ?case
  proof cases
    case here
    then show ?thesis by auto
  next
    case desc
    with Cons.prems(2) show ?thesis by simp
  next
    case later
    from Cons.IH[OF later Cons.prems(2)] show ?thesis by auto
  qed
qed

lemma viewResults_after_runner_error:
  assumes "err r = Some t" "handleResponse e m r = Inr (m', c)"
  shows "viewResults m' =
           (if TrimSpace (lastPrompt m) \<noteq> [] then [(promptStyle, promptMark @ '' '' @ lastPrompt m)]
            else [])
           @ [(warnStyle, warningSign @ '' No options returned'')]"
    and "status m' = ''error from '' @ cli r @ '' '' @ bullet @ '' '' @ helpViewing"
  using assms by (auto simp: handleResponse_err viewResults_def)

lemma handleInputKeys_options:
  assumes h: "handleInputKeys e m k = Inr (m', c, w)"
  shows "options m' = options m \<or> options m' = []"
proof (cases rule: handleInputKeys_cases[where e=e and m=m and k=k])
  case quit
  with h show ?thesis by auto
next
  case cycleNext
  with h obtain m1 where "nextCLI m = Inr m1" "m' = m1"
    by (auto split: sum.splits)
  then show ?thesis using nextCLI_frame[of m m1] by auto
next
  case cyclePrev
  with h obtain m1 where "prevCLI m = Inr m1" "m' = m1"
    by (auto split: sum.splits)
  then show ?thesis using prevCLI_frame[of m m1] by auto
next
  case (newline t n)
  with h show ?thesis by auto
next
  case submitRun
  show ?thesis
    by (cases rule: submitPrompt_cases[where e=e and m="m\<lparr>autoExecute := True\<rparr>"])
       (use submitRun h in auto)
next
  case submit
  show ?thesis
    by (cases rule: submitPrompt_cases[where e=e and m="m\<lparr>autoExecute := False\<rparr>"])
       (use submit h in auto)
next
  case (other t n)
  with h show ?thesis by auto
qed

lemma handleResponse_options:
  assumes h: "handleResponse e m r = Inr (m', c)"
  shows "options m' = (if err r = None
                       then fst (parseOptions (decodeJSON e) (TrimSpace (msgOutput r))) else [])"
proof (cases rule: handleResponse_cases[where r=r and e=e])
  case (failed t)
  with h show ?thesis by (auto simp: handleResponse_err)
next
  case (unparsed y t)
  with h parseOptions_fail[OF unparsed(2)] show ?thesis by (auto simp: handleResponse_parse_fail)
next
  case (parsed opts)
  with h show ?thesis
    by (cases "autoExecute m") (auto simp: handleResponse_ok)
qed

lemma Update_options:
  assumes h: "Update e m ms = Inr (m', c, w)"
  shows "options m' = options m \<or> options m' = []
         \<or> (\<exists>r. ms = ResponseMsg r \<and> err r = None
               \<and> options m' = fst (parseOptions (decodeJSON e) (TrimSpace (msgOutput r))))"
proof (cases ms)
  case (WindowSizeMsg x y)
  with h show ?thesis by (auto simp: Update_def Let_def split: if_splits)
next
  case TickMsg
  with h show ?thesis by (auto simp: Update_def split: if_splits)
next
  case (ResponseMsg r)
  with h obtain c' where "handleResponse e m r = Inr (m', c')"
    by (auto simp: Update_def split: sum.splits)
  from handleResponse_options[OF this] ResponseMsg show ?thesis by (cases "err r") auto
next
  case (ExecResultMsg x y)
  with h show ?thesis by (auto simp: Update_def split: option.splits if_splits)
next
  case (KeyMsg k)
  show ?thesis
  proof (cases "mode m")
    case modeInput
    with KeyMsg h have "handleInputKeys e m k = Inr (m', c, w)"
      by (simp add: Update_def handleKeyMsg_def)
    then show ?thesis using handleInputKeys_options by blast
  next
    case modeRunning
    with KeyMsg h show ?thesis
      by (auto simp: Update_def handleKeyMsg_def handleRunningKeys_def split: if_splits)
  next
    case modeViewing
    with KeyMsg h have "handleViewingKeys e m k = Inr (m', c, w)"
      by (simp add: Update_def handleKeyMsg_def)
    then show ?thesis using handleViewingKeys_effect(6) by blast
  qed
next
  case (OtherMsg n)
  with h show ?thesis by (auto simp: Update_def split: if_splits prod.splits)
qed

text \<open>
  C8. \<open>cleanText\<close> is idempotent, and it only enters what is shown, the rows of the
  options table and the status line, never the stored values. The options \<open>handleResponse\<close>
  stores are the list \<open>parseOptions\<close> returned (none after a runner error), which holds
  the entries of a decoded candidate unchanged; no other step of \<open>Update\<close> writes options
  except to empty them. A run or a copy in viewing mode passes on the action value as it
  is stored (the value of the selected option, or the raw output when that is empty), and
  the automatic run executes the value of the first stored option, while the status shows
  it normalised.
\<close>

theorem cleanText_idempotent_display_only:
  "cleanText (cleanText s) = cleanText s
   \<and> (\<forall>row\<in>set (renderOptionsTable m). fst row = selectedStyle \<or> fst row = normalStyle \<longrightarrow>
        (\<exists>opt\<in>set (options m). snd row = triangle @ '' '' @ cleanText (Value opt)
                              \<or> snd row = ''  '' @ cleanText (Value opt)))
   \<and> (handleViewingKeys e m k = Inr (m1, c1, w1) \<longrightarrow>
        (options m1 = options m \<or> options m1 = [])
        \<and> (\<forall>v x. c1 = ExecWithFeedback v x \<longrightarrow>
              v = actionValue m \<and> status m1 = ''running: '' @ cleanText v)
        \<and> (\<forall>v\<in>set w1. v = actionValue m))
   \<and> (options m \<noteq> [] \<and> 0 \<le> selected m \<and> selected m < int (length (options m))
        \<and> Value (options m ! nat (selected m)) \<noteq> []
      \<longrightarrow> actionValue m = Value (options m ! nat (selected m)))
   \<and> (handleResponse e m r = Inr (m1, ExecWithFeedback v x) \<longrightarrow>
        options m1 \<noteq> [] \<and> v = Value (options m1 ! 0)
        \<and> status m1 = ''running: '' @ cleanText v)
   \<and> (handleResponse e m r = Inr (m1, c1) \<longrightarrow>
        options m1 = (if err r = None
                      then fst (parseOptions (decodeJSON e) (TrimSpace (msgOutput r))) else []))
   \<and> (parseOptions dec raw = (opts, None) \<longrightarrow>
        (\<exists>g\<in>set (candidates raw). decodesToOptions dec g
            \<and> mset opts = mset (Options (snd (dec g)))))
   \<and> (Update e m ms = Inr (m1, c1, w1) \<longrightarrow>
        options m1 = options m \<or> options m1 = []
        \<or> (\<exists>r. ms = ResponseMsg r \<and> err r = None
              \<and> options m1 = fst (parseOptions (decodeJSON e) (TrimSpace (msgOutput r)))))"
proof -
  have c1: "cleanText (cleanText s) = cleanText s" by (rule cleanText_cleanText)
  have c0: "\<exists>opt\<in>set (options m). snd row = triangle @ '' '' @ cleanText (Value opt)
                              \<or> snd row = ''  '' @ cleanText (Value opt)"
    if "row \<in> set (renderOptionsTable m)" "fst row = selectedStyle \<or> fst row = normalStyle" for row
  proof (cases "options m = []")
    case True
    with that show ?thesis by (auto simp: renderOptionsTable_def)
  next
    case False
    with that(1) have "row \<in> set (tableRows 0 (selected m) (options m))"
      by (simp add: renderOptionsTable_def)
    then show ?thesis using that(2) by (rule tableRows_values)
  qed
  have c2: "(options m1 = options m \<or> options m1 = [])
        \<and> (\<forall>v x. c1 = ExecWithFeedback v x \<longrightarrow>
              v = actionValue m \<and> status m1 = ''running: '' @ cleanText v)
        \<and> (\<forall>v\<in>set w1. v = actionValue m)"
    if h: "handleViewingKeys e m k = Inr (m1, c1, w1)"
    by (cases rule: handleViewingKeys_cases[where e=e and m=m and k=k]) (use h in auto)
  have c3: "actionValue m = Value (options m ! nat (selected m))"
    if "options m \<noteq> [] \<and> 0 \<le> selected m \<and> selected m < int (length (options m))
        \<and> Value (options m ! nat (selected m)) \<noteq> []"
    using that by (simp add: actionValue_def selectedValue_in_range)
  have c4: "options m1 \<noteq> [] \<and> v = Value (options m1 ! 0)
        \<and> status m1 = ''running: '' @ cleanText v"
    if h: "handleResponse e m r = Inr (m1, ExecWithFeedback v x)"
    using handleResponse_effect(3)[OF h] by simp
  have c5: "options m1 = (if err r = None
                      then fst (parseOptions (decodeJSON e) (TrimSpace (msgOutput r))) else [])"
    if h: "handleResponse e m r = Inr (m1, c1)"
    using h by (rule handleResponse_options)
  have c6: "\<exists>g\<in>set (candidates raw). decodesToOptions dec g
            \<and> mset opts = mset (Options (snd (dec g)))"
    if h: "parseOptions dec raw = (opts, None)"
    using h by (rule parseOptions_values)
  have c7: "options m1 = options m \<or> options m1 = []
        \<or> (\<exists>r. ms = ResponseMsg r \<and> err r = None
              \<and> options m1 = fst (parseOptions (decodeJSON e) (TrimSpace (msgOutput r))))"
    if h: "Update e m ms = Inr (m1, c1, w1)"
    using h by (rule Update_options)
  show ?thesis using c0 c1 c2 c3 c4 c5 c6 c7 by blast
qed

theorem cleanText_idempotent_display_only_witness:
  "parseOptions (decodeJSON spacedEnv) (TrimSpace (msgOutput spacedResponse))
     = ([\<lparr>Value = ''ls   -la'', Description = [], RecommendationOrder = 0\<rparr>], None)
   \<and> handleResponse spacedEnv (sampleRunning False) spacedResponse = Inr (spacedViewing, NoCmd)
   \<and> Update spacedEnv (sampleRunning False) (ResponseMsg spacedResponse)
       = Inr (spacedViewing, NoCmd, [])
   \<and> options spacedViewing
       = [\<lparr>Value = ''ls   -la'', Description = [], RecommendationOrder = 0\<rparr>]
   \<and> renderOptionsTable spacedViewing = [(selectedStyle, triangle @ '' ls -la'')]
   \<and> handleViewingKeys spacedEnv spacedViewing (sampleKey KeyCtrlR ''ctrl+r'')
       = Inr (spacedViewing\<lparr>status := ''running: ls -la''\<rparr>, ExecWithFeedback ''ls   -la'' True, [])
   \<and> handleViewingKeys spacedEnv spacedViewing (sampleKey KeyEnter ''enter'')
       = Inr (spacedViewing\<lparr>status := checkMark @ '' Copied to clipboard: ls   -la''\<rparr>,
              Quit, [''ls   -la''])
   \<and> actionValue spacedViewing = ''ls   -la''
   \<and> cleanText ''ls   -la'' = ''ls -la''
   \<and> handleResponse spacedEnv (sampleRunning True) spacedResponse
       = Inr (spacedViewing\<lparr>status := ''running: ls -la''\<rparr>, ExecWithFeedback ''ls   -la'' True)
   \<and> ''ls   -la'' = Value (options (spacedViewing\<lparr>status := ''running: ls -la''\<rparr>) ! 0)"
proof -
  let ?o = "\<lparr>Value = ''ls   -la'', Description = [], RecommendationOrder = 0\<rparr>"
  have c: "cleanText ''ls   -la'' = ''ls -la''" by code_simp
  have cn: "cleanText [] = []" by code_simp
  have ts: "TrimSpace spacedOutput = spacedOutput" unfolding spacedOutput_def by code_simp
  have e: "err spacedResponse = None" by (simp add: spacedResponse_def)
  have p: "parseOptions (decodeJSON spacedEnv) (TrimSpace (msgOutput spacedResponse)) = ([?o], None)"
    by (simp add: spacedResponse_def ts)
       (simp add: parseOptions_candidates spacedOutput_def marker_def spacedEnv_def
          decodesToOptions_def SliceStable_single)
  have h0: "handleResponse spacedEnv (sampleRunning False) spacedResponse = Inr (spacedViewing, NoCmd)"
    by (subst handleResponse_ok[OF e p])
       (simp add: sampleRunning_def sampleViewing_def spacedViewing_def sampleModel_def
          spacedResponse_def ts)
  have h1: "handleResponse spacedEnv (sampleRunning True) spacedResponse
       = Inr (spacedViewing\<lparr>status := ''running: ls -la''\<rparr>, ExecWithFeedback ''ls   -la'' True)"
    by (subst handleResponse_ok[OF e p])
       (simp add: sampleRunning_def sampleViewing_def spacedViewing_def sampleModel_def
          spacedResponse_def ts c)
  have u: "Update spacedEnv (sampleRunning False) (ResponseMsg spacedResponse)
       = Inr (spacedViewing, NoCmd, [])"
    by (simp add: Update_def h0)
  have t: "renderOptionsTable spacedViewing = [(selectedStyle, triangle @ '' ls -la'')]"
    by (simp add: renderOptionsTable_def spacedViewing_def sampleViewing_def sampleModel_def c cn)
  have a: "handleViewingKeys spacedEnv spacedViewing (sampleKey KeyCtrlR ''ctrl+r'')
     = Inr (spacedViewing\<lparr>status := ''running: ls -la''\<rparr>, ExecWithFeedback ''ls   -la'' True, [])"
    by (simp add: handleViewingKeys_def sampleKey_def isNewline_def isCtrlR_def selectedValue_def
        sliceAt_def spacedViewing_def sampleViewing_def sampleModel_def c Let_def)
  have b: "handleViewingKeys spacedEnv spacedViewing (sampleKey KeyEnter ''enter'')
     = Inr (spacedViewing\<lparr>status := checkMark @ '' Copied to clipboard: ls   -la''\<rparr>,
            Quit, [''ls   -la''])"
    by (simp add: handleViewingKeys_def sampleKey_def isNewline_def isCtrlR_def selectedValue_def
        sliceAt_def spacedViewing_def sampleViewing_def sampleModel_def spacedEnv_def sampleEnv_def
        Let_def)
  have r: "options spacedViewing \<noteq> [] \<and> 0 \<le> selected spacedViewing
        \<and> selected spacedViewing < int (length (options spacedViewing))
        \<and> Value (options spacedViewing ! nat (selected spacedViewing)) \<noteq> []"
    by (simp add: spacedViewing_def sampleViewing_def sampleModel_def)
  have v: "actionValue spacedViewing = Value (options spacedViewing ! nat (selected spacedViewing))"
    using r a
      cleanText_idempotent_display_only[where e=spacedEnv and m=spacedViewing
        and k="sampleKey KeyCtrlR ''ctrl+r''" and s="''ls   -la''"
        and ?m1.0="spacedViewing\<lparr>status := ''running: ls -la''\<rparr>"
        and ?c1.0="ExecWithFeedback ''ls   -la'' True" and ?w1.0="[]"
        and r=spacedResponse and v="''ls   -la''" and x=True
        and dec="decodeJSON spacedEnv" and raw="TrimSpace (msgOutput spacedResponse)"
        and opts="[?o]" and ms=TickMsg]
    by blast
  have s: "options spacedViewing
       = (if err spacedResponse = None
          then fst (parseOptions (decodeJSON spacedEnv) (TrimSpace (msgOutput spacedResponse)))
          else [])"
    using h0 u p
      cleanText_idempotent_display_only[where e=spacedEnv and m="sampleRunning False"
        and k="sampleKey KeyCtrlR ''ctrl+r''" and s="''ls   -la''"
        and ?m1.0=spacedViewing and ?c1.0=NoCmd and ?w1.0="[]"
        and r=spacedResponse and v="''ls   -la''" and x=True
        and dec="decodeJSON spacedEnv" and raw="TrimSpace (msgOutput spacedResponse)"
        and opts="[?o]" and ms="ResponseMsg spacedResponse"]
    by blast
  have o: "options spacedViewing = [?o]" using s p e by simp
  have av: "actionValue spacedViewing = ''ls   -la''"
    using v by (simp add: spacedViewing_def sampleViewing_def sampleModel_def)
  have x: "''ls   -la'' = Value (options (spacedViewing\<lparr>status := ''running: ls -la''\<rparr>) ! 0)"
    using h1
      cleanText_idempotent_display_only[where e=spacedEnv and m="sampleRunning True"
        and k="sampleKey KeyCtrlR ''ctrl+r''" and s="''ls   -la''"
        and ?m1.0="spacedViewing\<lparr>status := ''running: ls -la''\<rparr>"
        and ?c1.0="ExecWithFeedback ''ls   -la'' True" and ?w1.0="[]"
        and r=spacedResponse and v="''ls   -la''" and x=True
        and dec="decodeJSON spacedEnv" and raw="TrimSpace (msgOutput spacedResponse)"
        and opts="[?o]" and ms="ResponseMsg spacedResponse"]
    by blast
  show ?thesis
    using p h0 h1 u o t a b c av x by blast
qed

text \<open>
  C10. A submission made with a key other than ctrl+r, plain Enter among them, enters
  running mode with the flag cleared, and from a model with the flag cleared no sequence
  of messages without a ctrl+r key makes \<open>Update\<close> return a command that executes
  anything, nor sets the flag. The flag is set only by a ctrl+r key in input mode; the
  response that triggers the automatic run clears it; and the return from viewing to
  input mode clears it.
\<close>

theorem no_execution_without_ctrl_r:
  "(mode m = modeInput \<and> \<not> isCtrlR k \<and> Update e m (KeyMsg k) = Inr (m1, c1, w1)
        \<and> mode m1 = modeRunning
      \<longrightarrow> \<not> autoExecute m1 \<and> \<not> execs c1
          \<and> (\<forall>msgs m2 cs. (\<forall>ms\<in>set msgs. \<forall>k'. ms = KeyMsg k' \<longrightarrow> \<not> isCtrlR k')
                \<and> runMsgs e m1 msgs = Inr (m2, cs)
              \<longrightarrow> \<not> autoExecute m2 \<and> (\<forall>c\<in>set cs. \<not> execs c)))
   \<and> (\<not> autoExecute m \<and> Update e m ms = Inr (m1, c1, w1) \<and> autoExecute m1
      \<longrightarrow> mode m = modeInput \<and> (\<exists>k'. ms = KeyMsg k' \<and> isCtrlR k'))
   \<and> (handleResponse e m r = Inr (m1, ExecWithFeedback v x) \<longrightarrow> autoExecute m \<and> \<not> autoExecute m1)
   \<and> (mode m = modeViewing \<and> Update e m (KeyMsg k) = Inr (m1, c1, w1) \<and> mode m1 = modeInput
      \<longrightarrow> \<not> autoExecute m1)"
proof -
  have c1: "\<not> autoExecute m1 \<and> \<not> execs c1
          \<and> (\<forall>msgs m2 cs. (\<forall>ms\<in>set msgs. \<forall>k'. ms = KeyMsg k' \<longrightarrow> \<not> isCtrlR k')
                \<and> runMsgs e m1 msgs = Inr (m2, cs)
              \<longrightarrow> \<not> autoExecute m2 \<and> (\<forall>c\<in>set cs. \<not> execs c))"
    if a: "mode m = modeInput \<and> \<not> isCtrlR k \<and> Update e m (KeyMsg k) = Inr (m1, c1, w1)
        \<and> mode m1 = modeRunning"
  proof -
    from a have h: "handleInputKeys e m k = Inr (m1, c1, w1)"
      using Update_KeyMsg(1)[of m e k] by auto
    have f: "\<not> autoExecute m1" using handleInputKeys_effect(4)[OF h] a by simp
    have x: "\<not> execs c1" using handleInputKeys_effect(1)[OF h] .
    show ?thesis using f x runMsgs_no_exec[OF f] by blast
  qed
  have c2: "mode m = modeInput \<and> (\<exists>k'. ms = KeyMsg k' \<and> isCtrlR k')"
    if "\<not> autoExecute m \<and> Update e m ms = Inr (m1, c1, w1) \<and> autoExecute m1"
    using that Update_flag[of e m ms m1 c1 w1] by blast
  have c3: "autoExecute m \<and> \<not> autoExecute m1"
    if h: "handleResponse e m r = Inr (m1, ExecWithFeedback v x)"
    using handleResponse_effect(2)[OF h] by simp
  have c4: "\<not> autoExecute m1"
    if a: "mode m = modeViewing \<and> Update e m (KeyMsg k) = Inr (m1, c1, w1) \<and> mode m1 = modeInput"
  proof -
    from a have h: "handleViewingKeys e m k = Inr (m1, c1, w1)"
      using Update_KeyMsg(3)[of m e k] by auto
    from handleViewingKeys_effect(5)[OF h] a show ?thesis by simp
  qed
  show ?thesis using c1 c2 c3 c4 by blast
qed

theorem no_execution_without_ctrl_r_witness:
  "mode sampleModel = modeInput \<and> \<not> isCtrlR (sampleKey KeyEnter ''enter'')
   \<and> Update sampleEnv sampleModel (KeyMsg (sampleKey KeyEnter ''enter''))
       = Inr (sampleRunning False, Batch [RunPrompt ''codex'' (buildPrompt ''list files''), TickCmd], [])
   \<and> runMsgs sampleEnv (sampleRunning False)
        [TickMsg, ResponseMsg sampleResponse, KeyMsg (sampleKey KeyOther ''down'')]
       = Inr (sampleViewing\<lparr>spinnerFrame := 1, selected := 1\<rparr>, [TickCmd, NoCmd, NoCmd])
   \<and> Update sampleEnv sampleViewing (KeyMsg (sampleKey KeyEnter ''alt+enter''))
       = Inr (sampleModel\<lparr>lastPrompt := ''list files'', input := []\<rparr>, NoCmd, [])
   \<and> \<not> autoExecute sampleModel \<and> isCtrlR (sampleKey KeyCtrlR ''ctrl+r'')
   \<and> Update sampleEnv sampleModel (KeyMsg (sampleKey KeyCtrlR ''ctrl+r''))
       = Inr (sampleRunning True, Batch [RunPrompt ''codex'' (buildPrompt ''list files''), TickCmd], [])
   \<and> autoExecute (sampleRunning True)
   \<and> handleResponse sampleEnv (sampleRunning True) sampleResponse
       = Inr (sampleViewing\<lparr>status := ''running: ls -la''\<rparr>, ExecWithFeedback ''ls -la'' True)
   \<and> \<not> autoExecute (sampleViewing\<lparr>status := ''running: ls -la''\<rparr>)"
proof -
  have k: "\<not> isCtrlR (sampleKey KeyEnter ''enter'')" "\<not> isCtrlR (sampleKey KeyOther ''down'')"
    by (simp_all add: isCtrlR_def sampleKey_def)
  have t: "Update sampleEnv (sampleRunning False) TickMsg
       = Inr ((sampleRunning False)\<lparr>spinnerFrame := 1\<rparr>, TickCmd, [])"
    by (simp add: Update_def sampleRunning_def sampleModel_def goRem_def)
  have p: "handleResponse sampleEnv ((sampleRunning False)\<lparr>spinnerFrame := 1\<rparr>) sampleResponse
       = Inr (sampleViewing\<lparr>spinnerFrame := 1\<rparr>, NoCmd)"
  proof -
    have e: "err sampleResponse = None" by (simp add: sampleResponse_def)
    have q: "parseOptions (decodeJSON sampleEnv) (TrimSpace (msgOutput sampleResponse)) =
       ([\<lparr>Value = ''ls -la'', Description = [], RecommendationOrder = 1\<rparr>,
         \<lparr>Value = ''ls'', Description = [], RecommendationOrder = 2\<rparr>], None)"
      by (simp add: sampleResponse_def sampleEnv_def sample_TrimSpace sample_parse)
    show ?thesis
      by (subst handleResponse_ok[OF e q])
         (simp add: sampleRunning_def sampleViewing_def sampleModel_def sampleResponse_def
            sample_TrimSpace)
  qed
  have d: "Update sampleEnv (sampleViewing\<lparr>spinnerFrame := 1\<rparr>) (KeyMsg (sampleKey KeyOther ''down''))
       = Inr (sampleViewing\<lparr>spinnerFrame := 1, selected := 1\<rparr>, NoCmd, [])"
    by (simp add: Update_KeyMsg sampleViewing_def sampleModel_def sampleKey_def
        handleViewingKeys_def isNewline_def isCtrlR_def moveSelection_def goRem_def)
  have r: "runMsgs sampleEnv (sampleRunning False)
        [TickMsg, ResponseMsg sampleResponse, KeyMsg (sampleKey KeyOther ''down'')]
       = Inr (sampleViewing\<lparr>spinnerFrame := 1, selected := 1\<rparr>, [TickCmd, NoCmd, NoCmd])"
    using t p d by (simp add: Update_def)
  have z: "Update sampleEnv sampleViewing (KeyMsg (sampleKey KeyEnter ''alt+enter''))
       = Inr (sampleModel\<lparr>lastPrompt := ''list files'', input := []\<rparr>, NoCmd, [])"
    by (simp add: Update_KeyMsg sampleViewing_def sampleModel_def sampleKey_def sampleEnv_def
        handleViewingKeys_def isNewline_def)
  have g: "isCtrlR (sampleKey KeyCtrlR ''ctrl+r'')" "\<not> autoExecute sampleModel"
    by (simp_all add: isCtrlR_def sampleKey_def sampleModel_def)
  have a: "mode sampleModel = modeInput \<and> \<not> isCtrlR (sampleKey KeyEnter ''enter'')
   \<and> Update sampleEnv sampleModel (KeyMsg (sampleKey KeyEnter ''enter''))
       = Inr (sampleRunning False, Batch [RunPrompt ''codex'' (buildPrompt ''list files''), TickCmd], [])
   \<and> runMsgs sampleEnv (sampleRunning False)
        [TickMsg, ResponseMsg sampleResponse, KeyMsg (sampleKey KeyOther ''down'')]
       = Inr (sampleViewing\<lparr>spinnerFrame := 1, selected := 1\<rparr>, [TickCmd, NoCmd, NoCmd])
   \<and> Update sampleEnv sampleViewing (KeyMsg (sampleKey KeyEnter ''alt+enter''))
       = Inr (sampleModel\<lparr>lastPrompt := ''list files'', input := []\<rparr>, NoCmd, [])"
    using k r z sample_submit(2)
      no_execution_without_ctrl_r[where m=sampleModel and e=sampleEnv
        and k="sampleKey KeyEnter ''enter''" and ?m1.0="sampleRunning False"
        and ?c1.0="Batch [RunPrompt ''codex'' (buildPrompt ''list files''), TickCmd]" and ?w1.0="[]"]
    by (simp add: sampleModel_def)
  have b: "autoExecute (sampleRunning True)
      \<and> \<not> autoExecute (sampleViewing\<lparr>status := ''running: ls -la''\<rparr>)"
    using sample_response(1)
      no_execution_without_ctrl_r[where m="sampleRunning True" and e=sampleEnv and r=sampleResponse
        and k="sampleKey KeyEnter ''enter''" and ms=TickMsg
        and ?m1.0="sampleViewing\<lparr>status := ''running: ls -la''\<rparr>"
        and ?c1.0=NoCmd and ?w1.0="[]" and v="''ls -la''" and x=True]
    by blast
  show ?thesis
    using a b g sample_submit(1) sample_response(1) by blast
qed

end
